theory Spec2Isabelle
  imports Complex_Main "HOL-Library.Multiset"
begin

section \<open>Errors\<close>

text \<open>
  The Python of \<^verbatim>\<open>mmr_regularizer.py\<close> raises on a list index out of range
  (\<open>IndexError\<close>), on subscripting a number and on unpacking a shape of the wrong rank
  (\<open>TypeError\<close>, \<open>ValueError\<close>), and the tensor library raises when shapes do not fit
  (\<open>ShapeError\<close>). Every function of the model that can raise returns \<open>error + 'a\<close>.
\<close>

datatype error = IndexError | TypeError | ValueError | ShapeError

definition ebind :: "error + 'a \<Rightarrow> ('a \<Rightarrow> error + 'b) \<Rightarrow> error + 'b" where
  "ebind m f = (case m of Inl e \<Rightarrow> Inl e | Inr x \<Rightarrow> f x)"

definition py_index :: "'a list \<Rightarrow> int \<Rightarrow> error + 'a" where
  \<comment> \<open>Python \<open>xs[i]\<close>; the index \<open>-1\<close> is the last element.\<close>
  "py_index xs i =
     (if 0 \<le> i \<and> i < int (length xs) then Inr (xs ! nat i)
      else if i < 0 \<and> - int (length xs) \<le> i then Inr (xs ! nat (int (length xs) + i))
      else Inl IndexError)"

section \<open>Tensors\<close>

text \<open>
  A tensor is its shape and its entries in row-major order, as the library stores it;
  floating-point entries are idealised as reals. A reshape keeps the entries and changes
  the shape only.
\<close>

record tensor =
  shape :: "nat list"
  data :: "real list"

definition wf_tensor :: "tensor \<Rightarrow> bool" where
  "wf_tensor T \<longleftrightarrow> length (data T) = prod_list (shape T)"

definition ndims :: "tensor \<Rightarrow> nat" where
  "ndims T = length (shape T)"

fun ravel :: "nat list \<Rightarrow> nat list \<Rightarrow> nat" where
  "ravel (n # sh) (i # idx) = i * prod_list sh + ravel sh idx"
| "ravel _ _ = 0"

fun unravel :: "nat list \<Rightarrow> nat \<Rightarrow> nat list" where
  "unravel [] k = []"
| "unravel (n # sh) k = (k div prod_list sh) # unravel sh (k mod prod_list sh)"

definition valid_idx :: "nat list \<Rightarrow> nat list \<Rightarrow> bool" where
  "valid_idx sh idx \<longleftrightarrow> list_all2 (\<lambda>i n. i < n) idx sh"

definition entry :: "tensor \<Rightarrow> nat list \<Rightarrow> real" where
  "entry T idx = data T ! ravel (shape T) idx"

definition build :: "nat list \<Rightarrow> (nat list \<Rightarrow> real) \<Rightarrow> tensor" where
  "build sh f = \<lparr>shape = sh, data = map (\<lambda>k. f (unravel sh k)) [0..<prod_list sh]\<rparr>"

definition scalar :: "real \<Rightarrow> tensor" where
  "scalar v = \<lparr>shape = [], data = [v]\<rparr>"

definition vector :: "real list \<Rightarrow> tensor" where
  "vector vs = \<lparr>shape = [length vs], data = vs\<rparr>"

definition shape_at :: "tensor \<Rightarrow> int \<Rightarrow> error + nat" where
  \<comment> \<open>\<open>T.shape[i]\<close>\<close>
  "shape_at T i = py_index (shape T) i"

definition tmap :: "(real \<Rightarrow> real) \<Rightarrow> tensor \<Rightarrow> tensor" where
  \<comment> \<open>an elementwise operation, also one with a Python number as the other operand\<close>
  "tmap f T = \<lparr>shape = shape T, data = map f (data T)\<rparr>"

subsection \<open>Reshape\<close>

definition reshape :: "tensor \<Rightarrow> int list \<Rightarrow> error + tensor" where
  \<comment> \<open>\<open>tf.reshape\<close>: at most one dimension is -1 and is inferred from the number of
      entries; the inference fails when the known dimensions multiply to zero.\<close>
  "reshape T dims =
     (let known = filter (\<lambda>d. d \<noteq> - 1) dims;
          p = prod_list (map nat known);
          n = length (data T)
      in if (\<exists>d \<in> set dims. d < - 1) \<or> length known + 1 < length dims then Inl ShapeError
         else if length known = length dims
           then (if p = n then Inr \<lparr>shape = map nat dims, data = data T\<rparr> else Inl ShapeError)
         else if p = 0 \<or> n mod p \<noteq> 0 then Inl ShapeError
         else Inr \<lparr>shape = map (\<lambda>d. if d = - 1 then n div p else nat d) dims, data = data T\<rparr>)"

subsection \<open>Broadcasting\<close>

fun bshape_rev :: "nat list \<Rightarrow> nat list \<Rightarrow> nat list option" where
  "bshape_rev [] ys = Some ys"
| "bshape_rev xs [] = Some xs"
| "bshape_rev (x # xs) (y # ys) =
     (if x = y \<or> y = 1 then map_option ((#) x) (bshape_rev xs ys)
      else if x = 1 then map_option ((#) y) (bshape_rev xs ys)
      else None)"

definition bshape :: "nat list \<Rightarrow> nat list \<Rightarrow> nat list option" where
  \<comment> \<open>shapes are aligned at their last axis; two sizes fit when equal or when one is 1\<close>
  "bshape a b = map_option rev (bshape_rev (rev a) (rev b))"

definition bidx :: "nat list \<Rightarrow> nat list \<Rightarrow> nat list" where
  \<comment> \<open>the index into an operand of shape \<open>sa\<close> that the result index \<open>idx\<close> reads\<close>
  "bidx sa idx =
     map (\<lambda>(n, i). if n = 1 then 0 else i) (zip sa (drop (length idx - length sa) idx))"

definition bop :: "(real \<Rightarrow> real \<Rightarrow> real) \<Rightarrow> tensor \<Rightarrow> tensor \<Rightarrow> error + tensor" where
  "bop f A B =
     (case bshape (shape A) (shape B) of
        None \<Rightarrow> Inl ShapeError
      | Some sh \<Rightarrow>
          Inr (build sh (\<lambda>idx. f (entry A (bidx (shape A) idx)) (entry B (bidx (shape B) idx)))))"

subsection \<open>Reductions along an axis\<close>

definition ins :: "nat \<Rightarrow> nat \<Rightarrow> nat list \<Rightarrow> nat list" where
  "ins a j idx = take a idx @ [j] @ drop a idx"

definition del :: "nat \<Rightarrow> nat list \<Rightarrow> nat list" where
  "del a sh = take a sh @ drop (Suc a) sh"

definition fibre :: "tensor \<Rightarrow> nat \<Rightarrow> nat list \<Rightarrow> real list" where
  \<comment> \<open>the entries along axis \<open>a\<close> at the position \<open>idx\<close> of the other axes\<close>
  "fibre T a idx = map (\<lambda>j. entry T (ins a j idx)) [0..<shape T ! a]"

definition reduce :: "(real list \<Rightarrow> real) \<Rightarrow> tensor \<Rightarrow> nat \<Rightarrow> bool \<Rightarrow> error + tensor" where
  "reduce g T a keepdims =
     (if a < ndims T
      then Inr \<lparr>shape = (if keepdims then (shape T)[a := 1] else del a (shape T)),
                data = data (build (del a (shape T)) (\<lambda>idx. g (fibre T a idx)))\<rparr>
      else Inl ShapeError)"

definition reduce_sum :: "tensor \<Rightarrow> nat \<Rightarrow> error + tensor" where
  "reduce_sum T a = reduce sum_list T a False"

fun max_list :: "real list \<Rightarrow> real" where
  "max_list [] = 0"
| "max_list [x] = x"
| "max_list (x # y # xs) = max x (max_list (y # xs))"

datatype norm_ord = L1 | L2 | Linf

fun vec_norm :: "norm_ord \<Rightarrow> real list \<Rightarrow> real" where
  "vec_norm L1 xs = sum_list (map abs xs)"
| "vec_norm L2 xs = sqrt (sum_list (map (\<lambda>x. x * x) xs))"
| "vec_norm Linf xs = max_list (map abs xs)"

definition norm_axis :: "tensor \<Rightarrow> nat \<Rightarrow> norm_ord \<Rightarrow> bool \<Rightarrow> error + tensor" where
  \<comment> \<open>\<open>tf.norm(T, axis=a, ord=q, keep_dims=k)\<close>\<close>
  "norm_axis T a q keepdims = reduce (vec_norm q) T a keepdims"

subsection \<open>Matrix product\<close>

definition matmul :: "tensor \<Rightarrow> tensor \<Rightarrow> error + tensor" where
  \<comment> \<open>\<open>A @ B\<close>: the last two axes are multiplied, the leading (batch) axes broadcast\<close>
  "matmul A B =
     (let ra = ndims A; rb = ndims B in
      if ra < 2 \<or> rb < 2 then Inl ShapeError
      else
        let ba = take (ra - 2) (shape A); bb = take (rb - 2) (shape B);
            m = shape A ! (ra - 2); k = shape A ! (ra - 1);
            k' = shape B ! (rb - 2); n = shape B ! (rb - 1)
        in if k \<noteq> k' then Inl ShapeError
           else case bshape ba bb of
                  None \<Rightarrow> Inl ShapeError
                | Some bt \<Rightarrow>
                    Inr (build (bt @ [m, n])
                      (\<lambda>idx. let b = take (length bt) idx;
                                 i = idx ! length bt; j = idx ! Suc (length bt)
                             in sum_list (map (\<lambda>l. entry A (bidx ba b @ [i, l]) * entry B (bidx bb b @ [l, j]))
                                   [0..<k]))))"

subsection \<open>Convolution and pooling\<close>

definition out_size :: "string \<Rightarrow> nat \<Rightarrow> nat \<Rightarrow> nat \<Rightarrow> error + (nat \<times> nat)" where
  \<comment> \<open>The output size along one spatial axis and the padding in front of it, for an input
      of size \<open>n\<close>, a window of size \<open>k\<close> and a stride \<open>s\<close>. With \<open>VALID\<close> the window has to
      fit into the input.\<close>
  "out_size padding n k s =
     (if s = 0 \<or> k = 0 then Inl ShapeError
      else if padding = ''VALID'' then (if n < k then Inl ShapeError else Inr ((n - k) div s + 1, 0))
      else if padding = ''SAME''
        then (let out = (n + s - 1) div s in Inr (out, ((out - 1) * s + k - n) div 2))
      else Inl ValueError)"

definition window :: "tensor \<Rightarrow> nat \<Rightarrow> nat \<Rightarrow> nat \<Rightarrow> nat \<Rightarrow> nat \<Rightarrow> nat \<Rightarrow> nat \<Rightarrow> (nat \<times> nat \<times> nat \<times> nat) list" where
  \<comment> \<open>The window of the output position \<open>(i, j)\<close>: each offset \<open>(di, dj)\<close> inside the window
      whose input position \<open>(y, x)\<close> is inside the input (the padding is outside).\<close>
  "window X kh kw s pt pl i j =
     concat (map (\<lambda>di. concat (map (\<lambda>dj.
        if pt \<le> i * s + di \<and> i * s + di - pt < shape X ! 1 \<and>
           pl \<le> j * s + dj \<and> j * s + dj - pl < shape X ! 2
        then [(di, dj, i * s + di - pt, j * s + dj - pl)] else []) [0..<kw])) [0..<kh])"

definition max_pool2d :: "tensor \<Rightarrow> string \<Rightarrow> error + tensor" where
  \<comment> \<open>\<open>tf.nn.max_pool2d(X, ksize=(2, 2), strides=(2, 2), padding=padding)\<close>\<close>
  "max_pool2d X padding =
     (if ndims X \<noteq> 4 then Inl ShapeError
      else ebind (out_size padding (shape X ! 1) 2 2) (\<lambda>(oh, pt).
           ebind (out_size padding (shape X ! 2) 2 2) (\<lambda>(ow, pl).
           Inr (build [shape X ! 0, oh, ow, shape X ! 3]
             (\<lambda>idx. max_list (map (\<lambda>(di, dj, y, x). entry X [idx ! 0, y, x, idx ! 3])
                        (window X 2 2 2 pt pl (idx ! 1) (idx ! 2))))))))"

definition conv2d :: "tensor \<Rightarrow> tensor \<Rightarrow> nat \<Rightarrow> string \<Rightarrow> error + tensor" where
  \<comment> \<open>\<open>tf.nn.conv2d(X, w, strides=[1, stride, stride, 1], padding=padding)\<close>\<close>
  "conv2d X w stride padding =
     (if ndims X \<noteq> 4 \<or> ndims w \<noteq> 4 then Inl ShapeError
      else if shape X ! 3 \<noteq> shape w ! 2 then Inl ShapeError
      else ebind (out_size padding (shape X ! 1) (shape w ! 0) stride) (\<lambda>(oh, pt).
           ebind (out_size padding (shape X ! 2) (shape w ! 1) stride) (\<lambda>(ow, pl).
           Inr (build [shape X ! 0, oh, ow, shape w ! 3]
             (\<lambda>idx. sum_list (map (\<lambda>(di, dj, y, x).
                        sum_list (map (\<lambda>c. entry X [idx ! 0, y, x, c] * entry w [di, dj, c, idx ! 3])
                                    [0..<shape X ! 3]))
                        (window X (shape w ! 0) (shape w ! 1) stride pt pl (idx ! 1) (idx ! 2))))))))"

section \<open>The sensitivity propagator\<close>

definition calc_v_fc :: "tensor \<Rightarrow> tensor \<Rightarrow> error + tensor" where
  "calc_v_fc V_prev W =
     ebind (shape_at V_prev 1) (\<lambda>n_in.
     (case shape W of
        [n_prev, n_next] \<Rightarrow>
          ebind (reshape V_prev [- 1, int n_prev]) (\<lambda>V.
          ebind (matmul V W) (\<lambda>V.
          reshape V [- 1, int n_in, int n_next]))
      | _ \<Rightarrow> Inl ValueError))"

definition calc_v_conv :: "tensor \<Rightarrow> tensor \<Rightarrow> nat \<Rightarrow> string \<Rightarrow> bool \<Rightarrow> error + tensor" where
  "calc_v_conv V_prev w stride padding boo_last =
     ebind (shape_at V_prev 1) (\<lambda>d.
     ebind (shape_at V_prev 2) (\<lambda>h_prev.
     ebind (shape_at V_prev 3) (\<lambda>w_prev.
     ebind (shape_at V_prev 4) (\<lambda>c_prev.
     ebind (reshape V_prev [- 1, int h_prev, int w_prev, int c_prev]) (\<lambda>V.
     ebind (if \<not> boo_last then max_pool2d V padding else Inr V) (\<lambda>V.
     ebind (conv2d V w stride padding) (\<lambda>V.
     reshape V [- 1, int d, int (shape V ! 1), int (shape V ! 2), int (shape V ! 3)])))))))"

section \<open>Further tensor operations\<close>

definition tile :: "tensor \<Rightarrow> int list \<Rightarrow> error + tensor" where
  \<comment> \<open>\<open>tf.tile(T, multiples)\<close>\<close>
  "tile T ms =
     (if length ms \<noteq> ndims T \<or> (\<exists>m \<in> set ms. m < 0) then Inl ShapeError
      else Inr (build (map (\<lambda>(n, m). n * nat m) (zip (shape T) ms))
                  (\<lambda>idx. entry T (map (\<lambda>(i, n). i mod n) (zip idx (shape T))))))"

definition transpose_021 :: "tensor \<Rightarrow> error + tensor" where
  \<comment> \<open>\<open>tf.transpose(T, perm=[0, 2, 1])\<close>\<close>
  "transpose_021 T =
     (case shape T of
        [a, b, c] \<Rightarrow> Inr (build [a, c, b] (\<lambda>idx. entry T [idx ! 0, idx ! 2, idx ! 1]))
      | _ \<Rightarrow> Inl ShapeError)"

definition concat1 :: "tensor \<Rightarrow> tensor \<Rightarrow> error + tensor" where
  \<comment> \<open>\<open>tf.concat([A, B], 1)\<close>\<close>
  "concat1 A B =
     (if ndims A < 2 \<or> ndims A \<noteq> ndims B \<or> del 1 (shape A) \<noteq> del 1 (shape B) then Inl ShapeError
      else Inr (build ((shape A)[1 := shape A ! 1 + shape B ! 1])
                  (\<lambda>idx. if idx ! 1 < shape A ! 1 then entry A idx
                         else entry B (idx[1 := idx ! 1 - shape A ! 1]))))"

definition eye :: "nat \<Rightarrow> tensor" where
  \<comment> \<open>\<open>tf.eye(n, n)\<close>\<close>
  "eye n = build [n, n] (\<lambda>idx. if idx ! 0 = idx ! 1 then 1 else 0)"

definition matrix_diag :: "tensor \<Rightarrow> error + tensor" where
  \<comment> \<open>\<open>tf.matrix_diag(T)\<close>, \<open>tf.linalg.diag(T)\<close>: the last axis becomes a diagonal matrix\<close>
  "matrix_diag T =
     (if ndims T = 0 then Inl ShapeError
      else Inr (build (shape T @ [last (shape T)])
                  (\<lambda>idx. if idx ! (length idx - 2) = last idx then entry T (butlast idx) else 0)))"

definition expand_dims1 :: "tensor \<Rightarrow> error + tensor" where
  \<comment> \<open>\<open>tf.expand_dims(T, 1)\<close>\<close>
  "expand_dims1 T =
     (if ndims T = 0 then Inl ShapeError
      else Inr \<lparr>shape = ins 1 1 (shape T), data = data T\<rparr>)"

definition squeeze1 :: "tensor \<Rightarrow> error + tensor" where
  \<comment> \<open>\<open>tf.squeeze(T, 1)\<close>\<close>
  "squeeze1 T =
     (if ndims T < 2 \<or> shape T ! 1 \<noteq> 1 then Inl ShapeError
      else Inr \<lparr>shape = del 1 (shape T), data = data T\<rparr>)"

definition top_k :: "tensor \<Rightarrow> int \<Rightarrow> error + tensor" where
  \<comment> \<open>\<open>tf.nn.top_k(T, k=k).values\<close>: the \<open>k\<close> largest entries along the last axis, largest
      first\<close>
  "top_k T k =
     (if ndims T = 0 \<or> k < 0 \<or> int (last (shape T)) < k then Inl ShapeError
      else Inr (build (butlast (shape T) @ [nat k])
                  (\<lambda>idx. rev (sort (fibre T (ndims T - 1) (butlast idx))) ! last idx)))"

section \<open>The distance selector\<close>

text \<open>
  \<open>np.random\<close> is a global generator: the model passes its state, the stream of the
  uniform samples of \<open>[0, 1)\<close> it is still to deliver. \<open>np.random.rand(n)\<close> takes the first
  \<open>n\<close> of them.
\<close>

type_synonym rng = "nat \<Rightarrow> real"

definition rand :: "nat \<Rightarrow> rng \<Rightarrow> real list \<times> rng" where
  "rand n g = (map g [0..<n], (\<lambda>i. g (i + n)))"

definition get_min_distances :: "tensor \<Rightarrow> int \<Rightarrow> error + tensor" where
  "get_min_distances dists k =
     ebind (top_k (tmap uminus dists) k) (\<lambda>T. Inr (tmap uminus T))"

definition zero_out_non_min_distances :: "tensor \<Rightarrow> int \<Rightarrow> rng \<Rightarrow> error + (tensor \<times> rng)" where
  \<comment> \<open>\<open>dst\<close> is the source's \<open>dist\<close>. The maximum of an empty row is \<open>-inf\<close> in the library, which no entry is below: with
      \<open>n_boundaries = 0\<close> the mask is zero everywhere.\<close>
  "zero_out_non_min_distances dst n_boundaries g =
     ebind (shape_at dst 1) (\<lambda>n_units.
     (case rand n_units g of (u, g') \<Rightarrow>
     ebind (bop (+) dst (vector (map (\<lambda>r. (1 / 100000) * (r - 0.5)) u))) (\<lambda>dst.
     ebind (get_min_distances dst n_boundaries) (\<lambda>min_dist_rb.
     ebind (reduce max_list min_dist_rb 1 False) (\<lambda>th1.
     ebind (expand_dims1 th1) (\<lambda>th1.
     ebind (tile th1 [1, int n_units]) (\<lambda>th1.
     ebind (bop (\<lambda>d t. if n_boundaries \<noteq> 0 \<and> d \<le> t then 1 else 0) dst th1) (\<lambda>th.
     Inr (th, g')))))))))"

section \<open>The margin regularizer\<close>

text \<open>
  The arguments of \<open>mmr_cnn\<close> as Python passes them: the norm \<open>q\<close> is a number,
  \<open>np.inf\<close> or a string; \<open>gamma_rb\<close> and \<open>gamma_db\<close> are a number in the single-norm
  branch and a sequence of two numbers in the \<open>'univ'\<close> branch. The argument \<open>model\<close> is
  never read and is left out. The result is a pair of tensors, a list of four, or
  \<open>None\<close> when the function reaches its end without a \<open>return\<close>.
\<close>

datatype qspec = QNum real | QInf | QStr string

datatype pyval = Num real | Seq "real list"

datatype result = Terms2 tensor tensor | Terms4 tensor tensor tensor tensor | PyNone

definition as_tensor :: "pyval \<Rightarrow> tensor" where
  \<comment> \<open>the tensor that the library makes of a Python operand\<close>
  "as_tensor v = (case v of Num x \<Rightarrow> scalar x | Seq xs \<Rightarrow> vector xs)"

definition subscript :: "pyval \<Rightarrow> int \<Rightarrow> error + pyval" where
  \<comment> \<open>\<open>v[i]\<close>\<close>
  "subscript v i =
     (case v of Num x \<Rightarrow> Inl TypeError | Seq xs \<Rightarrow> ebind (py_index xs i) (\<lambda>x. Inr (Num x)))"

definition eps_num_stabil :: real where
  "eps_num_stabil = 1 / 100000"

definition strides :: "nat list" where
  "strides = [1, 1, 1, 1, 1]"

definition padding :: string where
  "padding = ''VALID''"

subsection \<open>Partition of the layers\<close>

record layers =
  z_conv :: "tensor list"
  z_fc :: "tensor list"
  relus_conv :: "tensor list"
  relus_fc :: "tensor list"
  W_conv :: "tensor list"
  W_fc :: "tensor list"

definition no_layers :: layers where
  "no_layers = \<lparr>z_conv = [], z_fc = [], relus_conv = [], relus_fc = [], W_conv = [], W_fc = []\<rparr>"

definition relu_switch :: "tensor \<Rightarrow> tensor" where
  \<comment> \<open>\<open>tf.cast(tf.greater(z, 0), tf.float32)\<close>\<close>
  "relu_switch z = tmap (\<lambda>v. if v > 0 then 1 else 0) z"

fun partition_layers :: "tensor list \<Rightarrow> tensor list \<Rightarrow> nat \<Rightarrow> nat \<Rightarrow> layers \<Rightarrow> error + layers" where
  \<comment> \<open>the loop \<open>for i in range(len(z_list))\<close>, with \<open>n\<close> iterations still to run\<close>
  "partition_layers z_list weights i 0 L = Inr L"
| "partition_layers z_list weights i (Suc n) L =
     ebind (py_index z_list (int i)) (\<lambda>z.
     ebind (expand_dims1 (relu_switch z)) (\<lambda>relu.
     ebind (py_index weights (2 * int i)) (\<lambda>W.
     partition_layers z_list weights (Suc i) n
       (if ndims z = 4
        then L\<lparr>z_conv := z_conv L @ [z], relus_conv := relus_conv L @ [relu],
               W_conv := W_conv L @ [W]\<rparr>
        else L\<lparr>z_fc := z_fc L @ [z], relus_fc := relus_fc L @ [relu],
               W_fc := W_fc L @ [W]\<rparr>))))"

subsection \<open>Pieces shared by the two branches\<close>

definition stabilise :: "tensor \<Rightarrow> tensor" where
  \<comment> \<open>\<open>V + eps_num_stabil * tf.cast(tf.less(tf.abs(V), eps_num_stabil), tf.float32)\<close>\<close>
  "stabilise V =
     tmap (\<lambda>v. v + eps_num_stabil * (if \<bar>v\<bar> < eps_num_stabil then 1 else 0)) V"

definition conv_volume :: "tensor \<Rightarrow> nat" where
  \<comment> \<open>\<open>z.shape[1] * z.shape[2] * z.shape[3]\<close> of a tensor of rank 4\<close>
  "conv_volume z = shape z ! 1 * shape z ! 2 * shape z ! 3"

definition hinge :: "tensor \<Rightarrow> pyval \<Rightarrow> error + tensor" where
  \<comment> \<open>\<open>tf.maximum(0.0, 1.0 - dist / gamma)\<close>\<close>
  "hinge dst gamma =
     ebind (bop (/) dst (as_tensor gamma)) (\<lambda>r. Inr (tmap (\<lambda>v. max 0 (1 - v)) r))"

definition masked_sum :: "tensor \<Rightarrow> tensor \<Rightarrow> error + tensor" where
  \<comment> \<open>\<open>tf.reduce_sum(th * h, axis=1)\<close>\<close>
  "masked_sum th h = ebind (bop times th h) (\<lambda>p. reduce_sum p 1)"

definition first_layer_sensitivity ::
  "nat \<Rightarrow> nat \<Rightarrow> nat \<Rightarrow> tensor \<Rightarrow> tensor \<Rightarrow> int \<Rightarrow> bool \<Rightarrow> error + tensor" where
  \<comment> \<open>the filter of the first convolution applied to the identity, once per example,
      times the switches of the first layer\<close>
  "first_layer_sensitivity h_in w_in c_in W0 relu0 bs boo_last =
     (let n_in = h_in * w_in * c_in in
      ebind (reshape (eye n_in) [1, int n_in, int h_in, int w_in, int c_in]) (\<lambda>identity_input_fm.
      ebind (py_index strides 0) (\<lambda>stride.
      ebind (calc_v_conv identity_input_fm W0 stride padding boo_last) (\<lambda>V.
      ebind (tile V [bs, 1, 1, 1, 1]) (\<lambda>V.
      bop times V relu0)))))"

definition flatten_sensitivity :: "tensor \<Rightarrow> int \<Rightarrow> nat \<Rightarrow> error + tensor" where
  \<comment> \<open>\<open>tf.reshape(V, [bs, n_in, V.shape[2] * V.shape[3] * V.shape[4]])\<close>\<close>
  "flatten_sensitivity V bs n_in =
     ebind (shape_at V 2) (\<lambda>a. ebind (shape_at V 3) (\<lambda>b. ebind (shape_at V 4) (\<lambda>c.
     reshape V [bs, int n_in, int (a * b * c)])))"

definition db_sensitivity_diff :: "tensor \<Rightarrow> tensor \<Rightarrow> nat \<Rightarrow> nat \<Rightarrow> error + tensor" where
  \<comment> \<open>\<open>diff_v\<close>: the difference of each class's sensitivity to the true class's, floored\<close>
  "db_sensitivity_diff V y_true_diag n_out n_in =
     ebind (matmul V y_true_diag) (\<lambda>LLK2.
     ebind (reduce_sum LLK2 2) (\<lambda>l.
     ebind (tile l [1, int n_out]) (\<lambda>l.
     ebind (reshape l [- 1, int n_out, int n_in]) (\<lambda>l.
     ebind (transpose_021 l) (\<lambda>V_argmax.
     ebind (bop (-) V V_argmax) (\<lambda>diff_v.
     let diff_v = tmap abs diff_v in
     Inr (tmap (\<lambda>v. v + eps_num_stabil * (if v < eps_num_stabil then 1 else 0)) diff_v)))))))"

definition db_numerator :: "tensor \<Rightarrow> tensor \<Rightarrow> tensor \<Rightarrow> nat \<Rightarrow> error + tensor" where
  \<comment> \<open>\<open>dist_db_numerator\<close>: the logit of the true class minus each logit, plus 100 at the
      true class\<close>
  "db_numerator y_pred y_true y_true_diag n_out =
     ebind (expand_dims1 y_pred) (\<lambda>y_pred_diag.
     ebind (matmul y_pred_diag y_true_diag) (\<lambda>y_pred_correct.
     ebind (reduce_sum y_pred_correct 2) (\<lambda>y_pred_correct.
     ebind (tile y_pred_correct [1, int n_out]) (\<lambda>y_pred_correct.
     ebind (reshape y_pred_correct [- 1, int n_out, 1]) (\<lambda>y_pred_correct.
     ebind (transpose_021 y_pred_correct) (\<lambda>y_pred_correct.
     ebind (bop (-) y_pred_correct y_pred_diag) (\<lambda>d.
     ebind (squeeze1 d) (\<lambda>dist_db_numerator.
     bop (+) dist_db_numerator (tmap (\<lambda>v. 100 * v) y_true)))))))))"

definition db_distance :: "tensor \<Rightarrow> tensor \<Rightarrow> tensor \<Rightarrow> pyval \<Rightarrow> error + tensor" where
  \<comment> \<open>\<open>dist_db_numerator / dist_db_denominator + y_true * 2.0 * gamma_db\<close>\<close>
  "db_distance dist_db_numerator dist_db_denominator y_true gamma_db =
     ebind (bop (/) dist_db_numerator dist_db_denominator) (\<lambda>r.
     ebind (bop times (tmap (\<lambda>v. v * 2) y_true) (as_tensor gamma_db)) (\<lambda>s.
     bop (+) r s))"

subsection \<open>The single-norm branch\<close>

definition first_layer_distance :: "tensor \<Rightarrow> tensor \<Rightarrow> norm_ord \<Rightarrow> bool \<Rightarrow> int \<Rightarrow> error + tensor" where
  \<comment> \<open>the distances of the first layer: \<open>|z_conv[0]|\<close> over the norm of each filter\<close>
  "first_layer_distance W0 z0 q keepdims bs =
     ebind (shape_at W0 (- 1)) (\<lambda>c_next.
     ebind (reshape W0 [- 1, int c_next]) (\<lambda>w_matrix.
     ebind (norm_axis w_matrix 0 q keepdims) (\<lambda>denom.
     ebind (bop (/) (tmap abs z0) denom) (\<lambda>dist_rb.
     reshape dist_rb [bs, int (conv_volume z0)]))))"

definition conv_step ::
  "norm_ord \<Rightarrow> int \<Rightarrow> nat \<Rightarrow> tensor \<times> tensor \<times> tensor \<Rightarrow> tensor \<times> tensor \<Rightarrow> error + (tensor \<times> tensor)" where
  \<comment> \<open>the body of the loop over the convolutional layers \<open>1, 2, ...\<close>; the layer is
      \<open>(z_conv[i], relus_conv[i], W_conv[i])\<close>, the state \<open>(V, dist_rb)\<close>\<close>
  "conv_step q bs stride layer st =
     (case layer of (z, relu, W) \<Rightarrow> case st of (V, dist_rb) \<Rightarrow>
      ebind (calc_v_conv V W stride padding False) (\<lambda>V.
      let V_stable = stabilise V in
      ebind (norm_axis V_stable 1 q False) (\<lambda>nrm.
      ebind (bop (/) (tmap abs z) nrm) (\<lambda>new_dist_rb.
      ebind (reshape new_dist_rb [bs, int (conv_volume z)]) (\<lambda>new_dist_rb.
      ebind (concat1 dist_rb new_dist_rb) (\<lambda>dist_rb.
      ebind (bop times V relu) (\<lambda>V.
      Inr (V, dist_rb))))))))"

fun conv_loop ::
  "norm_ord \<Rightarrow> int \<Rightarrow> (tensor \<times> tensor \<times> tensor) list \<Rightarrow> nat \<Rightarrow> tensor \<times> tensor \<Rightarrow> error + (tensor \<times> tensor)" where
  \<comment> \<open>\<open>for i in range(1, len(z_conv))\<close>, over the layers from \<open>i\<close> on\<close>
  "conv_loop q bs [] i st = Inr st"
| "conv_loop q bs (layer # ls) i st =
     ebind (py_index strides (int i)) (\<lambda>stride.
     ebind (conv_step q bs stride layer st) (\<lambda>st.
     conv_loop q bs ls (Suc i) st))"

definition fc_step ::
  "norm_ord \<Rightarrow> tensor \<times> tensor \<times> tensor \<Rightarrow> tensor \<times> tensor \<Rightarrow> error + (tensor \<times> tensor)" where
  \<comment> \<open>the body of the loop over the fully-connected layers but the last\<close>
  "fc_step q layer st =
     (case layer of (z, relu, W) \<Rightarrow> case st of (V, dist_rb) \<Rightarrow>
      ebind (calc_v_fc V W) (\<lambda>V.
      let V_stable = stabilise V in
      ebind (norm_axis V_stable 1 q False) (\<lambda>nrm.
      ebind (bop (/) (tmap abs z) nrm) (\<lambda>new_dist_rb.
      ebind (concat1 dist_rb new_dist_rb) (\<lambda>dist_rb.
      ebind (bop times V relu) (\<lambda>V.
      Inr (V, dist_rb)))))))"

fun fc_loop ::
  "norm_ord \<Rightarrow> (tensor \<times> tensor \<times> tensor) list \<Rightarrow> tensor \<times> tensor \<Rightarrow> error + (tensor \<times> tensor)" where
  \<comment> \<open>\<open>for i in range(len(z_fc) - 1)\<close>\<close>
  "fc_loop q [] st = Inr st"
| "fc_loop q (layer # ls) st = ebind (fc_step q layer st) (\<lambda>st. fc_loop q ls st)"

definition conv_layers :: "layers \<Rightarrow> (tensor \<times> tensor \<times> tensor) list" where
  "conv_layers L = zip (z_conv L) (zip (relus_conv L) (W_conv L))"

definition fc_layers :: "layers \<Rightarrow> (tensor \<times> tensor \<times> tensor) list" where
  "fc_layers L = zip (z_fc L) (zip (relus_fc L) (W_fc L))"

definition rb_distance_single ::
  "norm_ord \<Rightarrow> layers \<Rightarrow> nat \<Rightarrow> nat \<Rightarrow> nat \<Rightarrow> int \<Rightarrow> error + (tensor \<times> tensor)" where
  \<comment> \<open>lines 124 to 151: the sensitivity \<open>V\<close> before the last layer and the distances
      \<open>dist_rb\<close> to the region boundaries\<close>
  "rb_distance_single q L h_in w_in c_in bs =
     ebind (py_index (W_conv L) 0) (\<lambda>W0.
     ebind (py_index (z_conv L) 0) (\<lambda>z0.
     ebind (py_index (relus_conv L) 0) (\<lambda>relu0.
     ebind (first_layer_distance W0 z0 q True bs) (\<lambda>dist_rb.
     ebind (first_layer_sensitivity h_in w_in c_in W0 relu0 bs False) (\<lambda>V.
     ebind (conv_loop q bs (tl (conv_layers L)) 1 (V, dist_rb)) (\<lambda>(V, dist_rb).
     ebind (flatten_sensitivity V bs (h_in * w_in * c_in)) (\<lambda>V.
     fc_loop q (butlast (fc_layers L)) (V, dist_rb))))))))"

definition db_distance_of ::
  "norm_ord \<Rightarrow> tensor \<Rightarrow> tensor \<Rightarrow> tensor \<Rightarrow> nat \<Rightarrow> nat \<Rightarrow> pyval \<Rightarrow> error + tensor" where
  \<comment> \<open>lines 158 to 177: the distances \<open>dist_db\<close> to the decision boundaries from the
      sensitivity \<open>V\<close> of the logits\<close>
  "db_distance_of q V y_pred y_true n_out n_in gamma_db =
     ebind (matrix_diag y_true) (\<lambda>y_true_diag.
     ebind (db_sensitivity_diff V y_true_diag n_out n_in) (\<lambda>diff_v.
     ebind (norm_axis diff_v 1 q False) (\<lambda>dist_db_denominator.
     ebind (db_numerator y_pred y_true y_true_diag n_out) (\<lambda>dist_db_numerator.
     db_distance dist_db_numerator dist_db_denominator y_true gamma_db))))"

definition mmr_single ::
  "norm_ord \<Rightarrow> layers \<Rightarrow> tensor \<Rightarrow> tensor \<Rightarrow> nat \<Rightarrow> nat \<Rightarrow> nat \<Rightarrow> nat \<Rightarrow> int \<Rightarrow> int \<Rightarrow>
   pyval \<Rightarrow> pyval \<Rightarrow> int \<Rightarrow> rng \<Rightarrow> error + (result \<times> rng)" where
  \<comment> \<open>the branch \<open>if q in [1, 2, np.inf]\<close>\<close>
  "mmr_single q L y_pred y_true h_in w_in c_in n_out n_rb n_db gamma_rb gamma_db bs g =
     ebind (rb_distance_single q L h_in w_in c_in bs) (\<lambda>(V, dist_rb).
     ebind (zero_out_non_min_distances dist_rb n_rb g) (\<lambda>(th, g).
     ebind (hinge dist_rb gamma_rb) (\<lambda>h.
     ebind (masked_sum th h) (\<lambda>rb_term.
     ebind (py_index (W_fc L) (- 1)) (\<lambda>W_last.
     ebind (calc_v_fc V W_last) (\<lambda>V.
     ebind (db_distance_of q V y_pred y_true n_out (h_in * w_in * c_in) gamma_db) (\<lambda>dist_db.
     ebind (zero_out_non_min_distances dist_db n_db g) (\<lambda>(th, g).
     ebind (hinge dist_db gamma_db) (\<lambda>h.
     ebind (masked_sum th h) (\<lambda>db_term.
     Inr (Terms2 rb_term db_term, g)))))))))))"

subsection \<open>The dual-norm branch\<close>

definition conv_step_univ ::
  "int \<Rightarrow> nat \<Rightarrow> bool \<Rightarrow> tensor \<times> tensor \<times> tensor \<Rightarrow> tensor \<times> tensor \<times> tensor \<Rightarrow>
   error + (tensor \<times> tensor \<times> tensor)" where
  \<comment> \<open>the state is \<open>(V, dist_rb_l1, dist_rb_linf)\<close>\<close>
  "conv_step_univ bs stride boo_last layer st =
     (case layer of (z, relu, W) \<Rightarrow> case st of (V, dist_rb_l1, dist_rb_linf) \<Rightarrow>
      ebind (calc_v_conv V W stride padding boo_last) (\<lambda>V.
      let V_stable = stabilise V in
      ebind (norm_axis V_stable 1 Linf False) (\<lambda>nrm.
      ebind (bop (/) (tmap abs z) nrm) (\<lambda>new_dist_rb_l1.
      ebind (reshape new_dist_rb_l1 [bs, int (conv_volume z)]) (\<lambda>new_dist_rb_l1.
      ebind (concat1 dist_rb_l1 new_dist_rb_l1) (\<lambda>dist_rb_l1.
      ebind (norm_axis V_stable 1 L1 False) (\<lambda>nrm.
      ebind (bop (/) (tmap abs z) nrm) (\<lambda>new_dist_rb_linf.
      ebind (reshape new_dist_rb_linf [bs, int (conv_volume z)]) (\<lambda>new_dist_rb_linf.
      ebind (concat1 dist_rb_linf new_dist_rb_linf) (\<lambda>dist_rb_linf.
      ebind (bop times V relu) (\<lambda>V.
      Inr (V, dist_rb_l1, dist_rb_linf))))))))))))"

fun conv_loop_univ ::
  "int \<Rightarrow> bool \<Rightarrow> (tensor \<times> tensor \<times> tensor) list \<Rightarrow> nat \<Rightarrow> tensor \<times> tensor \<times> tensor \<Rightarrow>
   error + (tensor \<times> tensor \<times> tensor)" where
  "conv_loop_univ bs boo_last [] i st = Inr st"
| "conv_loop_univ bs boo_last (layer # ls) i st =
     ebind (py_index strides (int i)) (\<lambda>stride.
     ebind (conv_step_univ bs stride boo_last layer st) (\<lambda>st.
     conv_loop_univ bs boo_last ls (Suc i) st))"

definition fc_step_univ ::
  "tensor \<times> tensor \<times> tensor \<Rightarrow> tensor \<times> tensor \<times> tensor \<Rightarrow> error + (tensor \<times> tensor \<times> tensor)" where
  "fc_step_univ layer st =
     (case layer of (z, relu, W) \<Rightarrow> case st of (V, dist_rb_l1, dist_rb_linf) \<Rightarrow>
      ebind (calc_v_fc V W) (\<lambda>V.
      let V_stable = stabilise V in
      ebind (norm_axis V_stable 1 Linf False) (\<lambda>nrm.
      ebind (bop (/) (tmap abs z) nrm) (\<lambda>new_dist_rb_l1.
      ebind (concat1 dist_rb_l1 new_dist_rb_l1) (\<lambda>dist_rb_l1.
      ebind (norm_axis V_stable 1 L1 False) (\<lambda>nrm.
      ebind (bop (/) (tmap abs z) nrm) (\<lambda>new_dist_rb_linf.
      ebind (concat1 dist_rb_linf new_dist_rb_linf) (\<lambda>dist_rb_linf.
      ebind (bop times V relu) (\<lambda>V.
      Inr (V, dist_rb_l1, dist_rb_linf))))))))))"

fun fc_loop_univ ::
  "(tensor \<times> tensor \<times> tensor) list \<Rightarrow> tensor \<times> tensor \<times> tensor \<Rightarrow> error + (tensor \<times> tensor \<times> tensor)" where
  "fc_loop_univ [] st = Inr st"
| "fc_loop_univ (layer # ls) st = ebind (fc_step_univ layer st) (\<lambda>st. fc_loop_univ ls st)"

definition rb_distance_univ ::
  "layers \<Rightarrow> nat \<Rightarrow> nat \<Rightarrow> nat \<Rightarrow> int \<Rightarrow> error + (tensor \<times> tensor \<times> tensor)" where
  \<comment> \<open>lines 189 to 233: the sensitivity \<open>V\<close> before the last layer and the distances
      \<open>dist_rb_l1\<close> and \<open>dist_rb_linf\<close>\<close>
  "rb_distance_univ L h_in w_in c_in bs =
     ebind (py_index (W_conv L) 0) (\<lambda>W0.
     ebind (py_index (z_conv L) 0) (\<lambda>z0.
     ebind (py_index (relus_conv L) 0) (\<lambda>relu0.
     ebind (first_layer_distance W0 z0 Linf False bs) (\<lambda>dist_rb_l1.
     ebind (first_layer_distance W0 z0 L1 False bs) (\<lambda>dist_rb_linf.
     ebind (first_layer_sensitivity h_in w_in c_in W0 relu0 bs True) (\<lambda>V.
     let boo_last = False in
     ebind (conv_loop_univ bs boo_last (tl (conv_layers L)) 1 (V, dist_rb_l1, dist_rb_linf)) (\<lambda>(V, dist_rb_l1, dist_rb_linf).
     ebind (flatten_sensitivity V bs (h_in * w_in * c_in)) (\<lambda>V.
     fc_loop_univ (butlast (fc_layers L)) (V, dist_rb_l1, dist_rb_linf)))))))))"

definition union_mask :: "tensor \<Rightarrow> tensor \<Rightarrow> error + tensor" where
  \<comment> \<open>\<open>tf.minimum(th_l1 + th_linf, 1.0)\<close>\<close>
  "union_mask th_l1 th_linf = ebind (bop (+) th_l1 th_linf) (\<lambda>t. Inr (tmap (\<lambda>v. min v 1) t))"

definition mmr_univ ::
  "layers \<Rightarrow> tensor \<Rightarrow> tensor \<Rightarrow> nat \<Rightarrow> nat \<Rightarrow> nat \<Rightarrow> nat \<Rightarrow> int \<Rightarrow> int \<Rightarrow>
   pyval \<Rightarrow> pyval \<Rightarrow> int \<Rightarrow> rng \<Rightarrow> error + (result \<times> rng)" where
  \<comment> \<open>the branch \<open>elif q in ['univ']\<close>\<close>
  "mmr_univ L y_pred y_true h_in w_in c_in n_out n_rb n_db gamma_rb gamma_db bs g =
     ebind (subscript gamma_rb 0) (\<lambda>gamma_rb_l1.
     ebind (subscript gamma_rb 1) (\<lambda>gamma_rb_linf.
     ebind (subscript gamma_db 0) (\<lambda>gamma_db_l1.
     ebind (subscript gamma_db 1) (\<lambda>gamma_db_linf.
     ebind (rb_distance_univ L h_in w_in c_in bs) (\<lambda>(V, dist_rb_l1, dist_rb_linf).
     ebind (zero_out_non_min_distances dist_rb_l1 n_rb g) (\<lambda>(th_l1, g).
     ebind (zero_out_non_min_distances dist_rb_linf n_rb g) (\<lambda>(th_linf, g).
     ebind (union_mask th_l1 th_linf) (\<lambda>th.
     ebind (hinge dist_rb_l1 gamma_rb_l1) (\<lambda>h.
     ebind (masked_sum th h) (\<lambda>rb_term_temp_l1.
     ebind (hinge dist_rb_linf gamma_rb_linf) (\<lambda>h.
     ebind (masked_sum th h) (\<lambda>rb_term_temp_linf.
     ebind (py_index (W_fc L) (- 1)) (\<lambda>W_last.
     ebind (calc_v_fc V W_last) (\<lambda>V.
     ebind (db_distance_of Linf V y_pred y_true n_out (h_in * w_in * c_in) gamma_db_l1) (\<lambda>dist_db_l1.
     ebind (db_distance_of L1 V y_pred y_true n_out (h_in * w_in * c_in) gamma_db_linf) (\<lambda>dist_db_linf.
     ebind (hinge dist_db_l1 gamma_db_l1) (\<lambda>h.
     ebind (reduce_sum h 1) (\<lambda>db_term_temp_l1.
     ebind (hinge dist_db_linf gamma_db_linf) (\<lambda>h.
     ebind (reduce_sum h 1) (\<lambda>db_term_temp_linf.
     Inr (Terms4 rb_term_temp_l1 rb_term_temp_linf db_term_temp_l1 db_term_temp_linf, g)))))))))))))))))))))"

subsection \<open>The entry point\<close>

definition norm_of :: "qspec \<Rightarrow> norm_ord option" where
  \<comment> \<open>\<open>q in [1, 2, np.inf]\<close>, and the norm \<open>ord=q\<close> then\<close>
  "norm_of q =
     (if q = QNum 1 then Some L1 else if q = QNum 2 then Some L2
      else if q = QInf then Some Linf else None)"

definition mmr_cnn ::
  "tensor list \<Rightarrow> tensor \<Rightarrow> tensor \<Rightarrow> int \<Rightarrow> int \<Rightarrow> pyval \<Rightarrow> pyval \<Rightarrow> int \<Rightarrow> qspec \<Rightarrow>
   tensor list \<Rightarrow> rng \<Rightarrow> error + (result \<times> rng)" where
  "mmr_cnn z_list x y_true n_rb n_db gamma_rb gamma_db bs q weights g =
     ebind (py_index z_list (- 1)) (\<lambda>y_pred.
     ebind (partition_layers z_list weights 0 (length z_list) no_layers) (\<lambda>L.
     ebind (shape_at x 1) (\<lambda>h_in.
     ebind (shape_at x 2) (\<lambda>w_in.
     ebind (shape_at x 3) (\<lambda>c_in.
     ebind (shape_at y_true 1) (\<lambda>n_out.
     (case norm_of q of
        Some ord \<Rightarrow>
          mmr_single ord L y_pred y_true h_in w_in c_in n_out n_rb n_db gamma_rb gamma_db bs g
      | None \<Rightarrow>
          if q = QStr ''univ''
          then mmr_univ L y_pred y_true h_in w_in c_in n_out n_rb n_db gamma_rb gamma_db bs g
          else Inr (PyNone, g))))))))"

section \<open>Notions the properties are stated with\<close>



definition nonneg :: "tensor \<Rightarrow> bool" where
  "nonneg T \<longleftrightarrow> (\<forall>v \<in> set (data T). 0 \<le> v)"

definition dist_rb_single :: "tensor list \<Rightarrow> tensor list \<Rightarrow> tensor \<Rightarrow> norm_ord \<Rightarrow> int \<Rightarrow> error + tensor" where
  \<comment> \<open>the vector \<open>dist_rb\<close> of the distances to the region boundaries that \<open>mmr_cnn\<close>
      computes in its single-norm branch\<close>
  "dist_rb_single z_list weights x q bs =
     ebind (partition_layers z_list weights 0 (length z_list) no_layers) (\<lambda>L.
     ebind (rb_distance_single q L (shape x ! 1) (shape x ! 2) (shape x ! 3) bs) (\<lambda>(V, dist_rb).
     Inr dist_rb))"

definition dist_rb_univ :: "tensor list \<Rightarrow> tensor list \<Rightarrow> tensor \<Rightarrow> int \<Rightarrow> error + (tensor \<times> tensor)" where
  \<comment> \<open>the vectors \<open>dist_rb_l1\<close> and \<open>dist_rb_linf\<close> of its dual-norm branch\<close>
  "dist_rb_univ z_list weights x bs =
     ebind (partition_layers z_list weights 0 (length z_list) no_layers) (\<lambda>L.
     ebind (rb_distance_univ L (shape x ! 1) (shape x ! 2) (shape x ! 3) bs) (\<lambda>(V, dist_rb_l1, dist_rb_linf).
     Inr (dist_rb_l1, dist_rb_linf)))"

section \<open>Example networks\<close>

text \<open>
  A network on a 2 by 2 image with one channel: a 1 by 1 convolution with weight 1 and
  bias -2, a fully-connected layer from 4 to 2 units, and (in the three-layer network) a
  second fully-connected layer from 2 to 2 units. The pre-activations are those of the
  forward pass on the image \<open>toy_x\<close>.
\<close>

definition toy_x :: tensor where
  "toy_x = \<lparr>shape = [1, 2, 2, 1], data = [1, 2, 3, 4]\<rparr>"

definition toy_W0 :: tensor where
  "toy_W0 = \<lparr>shape = [1, 1, 1, 1], data = [1]\<rparr>"

definition toy_b0 :: tensor where
  "toy_b0 = \<lparr>shape = [1], data = [- 2]\<rparr>"

definition toy_z0 :: tensor where
  "toy_z0 = \<lparr>shape = [1, 2, 2, 1], data = [- 1, 0, 1, 2]\<rparr>"

definition toy_W1 :: tensor where
  "toy_W1 = \<lparr>shape = [4, 2], data = [1, 0, 0, 1, 1, 1, 1, - 1]\<rparr>"

definition toy_b1 :: tensor where
  "toy_b1 = \<lparr>shape = [2], data = [0, 0]\<rparr>"

definition toy_z1 :: tensor where
  "toy_z1 = \<lparr>shape = [1, 2], data = [3, - 1]\<rparr>"

definition toy_W2 :: tensor where
  "toy_W2 = \<lparr>shape = [2, 2], data = [1, 2, 3, 4]\<rparr>"

definition toy_z2 :: tensor where
  "toy_z2 = \<lparr>shape = [1, 2], data = [3, 6]\<rparr>"

definition toy_y :: tensor where
  "toy_y = \<lparr>shape = [1, 2], data = [1, 0]\<rparr>"

text \<open>
  A second network of the same architecture with three layers: a 1 by 1 convolution with
  weight 1 and bias 0, a fully-connected layer from 4 to 2 units with bias (-3, -14), and a
  fully-connected layer from 2 to 2 units. The true class is class 0, while the logits
  (4, 6) favour class 1.
\<close>

definition net_x :: tensor where
  "net_x = \<lparr>shape = [1, 2, 2, 1], data = [1, 2, 3, 4]\<rparr>"

definition net_z0 :: tensor where
  "net_z0 = \<lparr>shape = [1, 2, 2, 1], data = [1, 2, 3, 4]\<rparr>"

definition net_W1 :: tensor where
  "net_W1 = \<lparr>shape = [4, 2], data = [4, 3 / 2, 0, 3 / 2, 0, 3 / 2, 0, 3 / 2]\<rparr>"

definition net_b1 :: tensor where
  "net_b1 = \<lparr>shape = [2], data = [- 3, - 14]\<rparr>"

definition net_z1 :: tensor where
  "net_z1 = \<lparr>shape = [1, 2], data = [1, 1]\<rparr>"

definition net_z2 :: tensor where
  "net_z2 = \<lparr>shape = [1, 2], data = [4, 6]\<rparr>"

definition net_z_list :: "tensor list" where
  "net_z_list = [net_z0, net_z1, net_z2]"

definition net_weights :: "tensor list" where
  "net_weights = [toy_W0, \<lparr>shape = [1], data = [0]\<rparr>, net_W1, net_b1, toy_W2, \<lparr>shape = [2], data = [0, 0]\<rparr>]"


definition fc_V :: tensor where
  "fc_V = \<lparr>shape = [1, 2, 2], data = [1, 2, 3, 4]\<rparr>"

definition fc_W :: tensor where
  "fc_W = \<lparr>shape = [2, 3], data = [1, 0, 2, 0, 1, 3]\<rparr>"

definition conv_V :: tensor where
  "conv_V = \<lparr>shape = [1, 4, 2, 2, 1], data = [1, 0, 0, 0, 0, 1, 0, 0, 0, 0, 1, 0, 0, 0, 0, 1]\<rparr>"

definition zero_bias :: "nat \<Rightarrow> tensor" where
  "zero_bias n = \<lparr>shape = [n], data = replicate n 0\<rparr>"

definition half_rng :: rng where
  "half_rng = (\<lambda>i. 1 / 2)"


section \<open>Evaluation\<close>

text \<open>
  The square root has no code equation of its own; this one lets terms that use only the
  norms 1 and infinity be evaluated.
\<close>

lemma sqrt_code [code]: "sqrt x = (if x = 0 then 0 else if x = 1 then 1 else sqrt x)"
  by simp

section \<open>The error monad and Python indexing\<close>

lemma ebind_Inr_iff: "ebind m f = Inr y \<longleftrightarrow> (\<exists>x. m = Inr x \<and> f x = Inr y)"
  by (cases m) (simp_all add: ebind_def)

lemma ebind_Inr [simp]: "ebind (Inr x) f = f x"
  by (simp add: ebind_def)

lemma ebind_Inl [simp]: "ebind (Inl e) f = Inl e"
  by (simp add: ebind_def)

lemma py_index_nat:
  "py_index xs (int i) = (if i < length xs then Inr (xs ! i) else Inl IndexError)"
  by (simp add: py_index_def)

lemma py_index_even:
  "py_index xs (2 * int i) = (if 2 * i < length xs then Inr (xs ! (2 * i)) else Inl IndexError)"
  using py_index_nat [of xs "2 * i"] by simp

lemma py_index_cases: "py_index xs i = Inl IndexError \<or> (\<exists>x \<in> set xs. py_index xs i = Inr x)"
  by (auto simp: py_index_def Let_def)

lemma py_index_last: "xs \<noteq> [] \<Longrightarrow> py_index xs (- 1) = Inr (last xs)"
  by (cases xs rule: rev_cases) (simp_all add: py_index_def Let_def)

lemma expand_dims1_cases:
  "expand_dims1 T = (if ndims T = 0 then Inl ShapeError else Inr \<lparr>shape = ins 1 1 (shape T), data = data T\<rparr>)"
  by (simp add: expand_dims1_def)

lemma ndims_relu_switch [simp]: "ndims (relu_switch z) = ndims z"
  by (simp add: relu_switch_def tmap_def ndims_def)

lemma partition_layers_weights_cong:
  assumes "\<And>i. py_index w (2 * int i) = py_index w' (2 * int i)"
  shows "partition_layers zs w i n L = partition_layers zs w' i n L"
  by (induction n arbitrary: i L) (simp_all add: assms)

lemma partition_layers_error:
  "partition_layers zs w i n L = Inl e \<Longrightarrow> e = IndexError \<or> e = ShapeError"
proof (induction n arbitrary: i L)
  case 0
  then show ?case by simp
next
  case (Suc n)
  show ?case
  proof (cases "py_index zs (int i)")
    case (Inl a)
    then show ?thesis using Suc.prems py_index_cases [of zs "int i"] by auto
  next
    case z: (Inr z)
    show ?thesis
    proof (cases "ndims z = 0")
      case True
      then show ?thesis using Suc.prems z by (simp add: expand_dims1_cases)
    next
      case nz: False
      show ?thesis
      proof (cases "py_index w (2 * int i)")
        case (Inl a)
        then show ?thesis
          using Suc.prems z nz py_index_cases [of w "2 * int i"] by (auto simp: expand_dims1_cases)
      next
        case (Inr W)
        then show ?thesis
          using Suc.prems z nz Suc.IH by (simp add: expand_dims1_cases)
      qed
    qed
  qed
qed

lemma partition_layers_ok:
  assumes "i + n \<le> length zs" "\<forall>z \<in> set zs. ndims z \<noteq> 0" "2 * (i + n) \<le> Suc (length w)"
  shows "\<exists>L'. partition_layers zs w i n L = Inr L'"
  using assms
proof (induction n arbitrary: i L)
  case 0
  then show ?case by simp
next
  case (Suc n)
  have i: "i < length zs" using Suc.prems(1) by simp
  then have nz: "ndims (zs ! i) \<noteq> 0" using Suc.prems(2) by simp
  have w: "2 * i < length w" using Suc.prems(3) by simp
  have rec: "\<exists>L'. partition_layers zs w (Suc i) n L0 = Inr L'" for L0
    using Suc.IH [of "Suc i" L0] Suc.prems by simp
  show ?case
    using i nz w rec by (simp add: py_index_nat py_index_even expand_dims1_cases)
qed

lemma shape_at_cases: "shape_at T i = Inl IndexError \<or> (\<exists>n. shape_at T i = Inr n)"
  using py_index_cases [of "shape T" i] by (auto simp: shape_at_def)

lemma shape_at_ok: "i < ndims T \<Longrightarrow> shape_at T (int i) = Inr (shape T ! i)"
  by (simp add: shape_at_def py_index_nat ndims_def)

section \<open>Indices and entries\<close>

lemma valid_idx_length: "valid_idx sh idx \<Longrightarrow> length idx = length sh"
  by (simp add: valid_idx_def list_all2_lengthD)

lemma valid_idx_nth: "valid_idx sh idx \<Longrightarrow> i < length sh \<Longrightarrow> idx ! i < sh ! i"
  by (simp add: valid_idx_def list_all2_conv_all_nth)

lemma valid_idx_Nil [simp]: "valid_idx [] idx \<longleftrightarrow> idx = []"
  by (simp add: valid_idx_def)

lemma valid_idx_Cons [simp]: "valid_idx (n # sh) idx \<longleftrightarrow> (\<exists>i is. idx = i # is \<and> i < n \<and> valid_idx sh is)"
  by (cases idx) (simp_all add: valid_idx_def)

lemma ravel_bound: "valid_idx sh idx \<Longrightarrow> ravel sh idx < prod_list sh"
proof (induction sh arbitrary: idx)
  case Nil
  then show ?case by simp
next
  case (Cons n sh)
  then obtain i "is" where idx: "idx = i # is" and i: "i < n" and v: "valid_idx sh is"
    by auto
  have r: "ravel sh is < prod_list sh" using Cons.IH v by simp
  have "i * prod_list sh + ravel sh is < i * prod_list sh + prod_list sh"
    using r by simp
  also have "\<dots> = Suc i * prod_list sh" by simp
  also have "\<dots> \<le> n * prod_list sh" using i by (intro mult_le_mono1) simp
  finally show ?case by (simp add: idx)
qed

lemma unravel_valid: "k < prod_list sh \<Longrightarrow> valid_idx sh (unravel sh k)"
proof (induction sh arbitrary: k)
  case Nil
  then show ?case by simp
next
  case (Cons n sh)
  have pos: "0 < prod_list sh" using Cons.prems by (cases "prod_list sh = 0") auto
  have "k div prod_list sh < n"
    using Cons.prems pos by (simp add: less_mult_imp_div_less mult.commute)
  moreover have "valid_idx sh (unravel sh (k mod prod_list sh))"
    using Cons.IH pos by simp
  ultimately show ?case by simp
qed

lemma ravel_unravel: "k < prod_list sh \<Longrightarrow> ravel sh (unravel sh k) = k"
proof (induction sh arbitrary: k)
  case Nil
  then show ?case by simp
next
  case (Cons n sh)
  have pos: "0 < prod_list sh" using Cons.prems by (cases "prod_list sh = 0") auto
  have "ravel sh (unravel sh (k mod prod_list sh)) = k mod prod_list sh"
    using Cons.IH pos by simp
  then show ?case by simp
qed

lemma unravel_ravel: "valid_idx sh idx \<Longrightarrow> unravel sh (ravel sh idx) = idx"
proof (induction sh arbitrary: idx)
  case Nil
  then show ?case by simp
next
  case (Cons n sh)
  then obtain i "is" where idx: "idx = i # is" and i: "i < n" and v: "valid_idx sh is"
    by auto
  have r: "ravel sh is < prod_list sh" using v by (rule ravel_bound)
  have "unravel sh (ravel sh is) = is" using Cons.IH v by simp
  then show ?case using r by (simp add: idx)
qed

lemma shape_build [simp]: "shape (build sh f) = sh"
  by (simp add: build_def)

lemma wf_build [simp]: "wf_tensor (build sh f)"
  by (simp add: build_def wf_tensor_def)

lemma entry_build: "valid_idx sh idx \<Longrightarrow> entry (build sh f) idx = f idx"
  using ravel_bound [of sh idx] unravel_ravel [of sh idx]
  by (simp add: entry_def build_def)

lemma data_build_mem:
  "v \<in> set (data (build sh f)) \<longleftrightarrow> (\<exists>idx. valid_idx sh idx \<and> v = f idx)"
proof
  assume "v \<in> set (data (build sh f))"
  then obtain k where "k < prod_list sh" "v = f (unravel sh k)"
    by (auto simp: build_def)
  then show "\<exists>idx. valid_idx sh idx \<and> v = f idx"
    using unravel_valid by blast
next
  assume "\<exists>idx. valid_idx sh idx \<and> v = f idx"
  then obtain idx where v: "valid_idx sh idx" "v = f idx" by blast
  have "ravel sh idx < prod_list sh" using v(1) by (rule ravel_bound)
  moreover have "f (unravel sh (ravel sh idx)) = v" using v by (simp add: unravel_ravel)
  ultimately show "v \<in> set (data (build sh f))"
    by (force simp: build_def)
qed

lemma entry_mem: "wf_tensor T \<Longrightarrow> valid_idx (shape T) idx \<Longrightarrow> entry T idx \<in> set (data T)"
  using ravel_bound [of "shape T" idx] by (simp add: entry_def wf_tensor_def)

lemma data_mem_entry:
  "wf_tensor T \<Longrightarrow> v \<in> set (data T) \<Longrightarrow> \<exists>idx. valid_idx (shape T) idx \<and> v = entry T idx"
proof -
  assume wf: "wf_tensor T" and "v \<in> set (data T)"
  then obtain k where k: "k < prod_list (shape T)" "v = data T ! k"
    by (auto simp: in_set_conv_nth wf_tensor_def)
  have "valid_idx (shape T) (unravel (shape T) k)" using k(1) by (rule unravel_valid)
  moreover have "entry T (unravel (shape T) k) = v"
    using k by (simp add: entry_def ravel_unravel)
  ultimately show ?thesis by blast
qed

section \<open>Shapes of the propagators\<close>

lemma prod_list_infer:
  "prod_list (map (\<lambda>d. if d = - 1 then m else nat d) dims)
     = m ^ (length dims - length (filter (\<lambda>d. d \<noteq> - 1) dims))
       * prod_list (map nat (filter (\<lambda>d. d \<noteq> - 1) dims))"
proof (induction dims)
  case Nil
  then show ?case by simp
next
  case (Cons d dims)
  have le: "length (filter (\<lambda>d. d \<noteq> - 1) dims) \<le> length dims" by simp
  show ?case
  proof (cases "d = - 1")
    case True
    then show ?thesis using Cons le by (simp add: Suc_diff_le)
  next
    case False
    then show ?thesis using Cons by simp
  qed
qed

lemma filter_all_length:
  "length (filter P xs) = length xs \<Longrightarrow> filter P xs = xs"
proof (induction xs)
  case Nil
  then show ?case by simp
next
  case (Cons x xs)
  show ?case
  proof (cases "P x")
    case True
    then show ?thesis using Cons by simp
  next
    case False
    have a: "length (filter P xs) \<le> length xs" by (rule length_filter_le)
    have b: "length (filter P xs) = Suc (length xs)" using Cons.prems False by simp
    from a b have False by linarith
    then show ?thesis ..
  qed
qed

lemma reshape_Inr:
  assumes "reshape T dims = Inr T'"
  shows "data T' = data T" and "length (shape T') = length dims"
    and "wf_tensor T'"
    and "\<And>i. i < length dims \<Longrightarrow> dims ! i \<noteq> - 1 \<Longrightarrow> shape T' ! i = nat (dims ! i)"
proof -
  let ?known = "filter (\<lambda>d. d \<noteq> - 1) dims"
  let ?p = "prod_list (map nat ?known)"
  let ?n = "length (data T)"
  have ok: "\<not> ((\<exists>d \<in> set dims. d < - 1) \<or> length ?known + 1 < length dims)"
    using assms by (auto simp: reshape_def Let_def split: if_splits)
  show "data T' = data T" and "length (shape T') = length dims"
    using assms by (auto simp: reshape_def Let_def split: if_splits)
  show "wf_tensor T'"
  proof (cases "length ?known = length dims")
    case True
    then have "?known = dims" by (rule filter_all_length)
    then show ?thesis using assms ok by (auto simp: reshape_def Let_def wf_tensor_def split: if_splits)
  next
    case False
    have le: "length ?known \<le> length dims" by (rule length_filter_le)
    have nlt: "\<not> length ?known + 1 < length dims" using ok by blast
    have one: "length dims - length ?known = 1" using False nlt le by linarith
    have p: "?p \<noteq> 0" "?n mod ?p = 0"
      using assms ok False by (auto simp: reshape_def Let_def split: if_splits)
    have T': "T' = \<lparr>shape = map (\<lambda>d. if d = - 1 then ?n div ?p else nat d) dims, data = data T\<rparr>"
      using assms ok False p by (auto simp: reshape_def Let_def split: if_splits)
    have "prod_list (shape T') = (?n div ?p) * ?p"
      unfolding T' using prod_list_infer [of "?n div ?p" dims] one by simp
    also have "\<dots> = ?n" using p by auto
    finally show ?thesis by (simp add: wf_tensor_def T')
  qed
  show "shape T' ! i = nat (dims ! i)" if "i < length dims" "dims ! i \<noteq> - 1" for i
    using assms that by (auto simp: reshape_def Let_def split: if_splits)
qed

lemma reshape_infer:
  assumes "\<forall>d \<in> set ds. 0 \<le> d"
  shows "reshape T (- 1 # ds) =
           (if prod_list (map nat ds) = 0 \<or> length (data T) mod prod_list (map nat ds) \<noteq> 0
            then Inl ShapeError
            else Inr \<lparr>shape = (length (data T) div prod_list (map nat ds)) # map nat ds, data = data T\<rparr>)"
proof -
  have f: "filter (\<lambda>d. d \<noteq> - 1) ds = ds" using assms by (auto simp: filter_id_conv)
  have m: "map (\<lambda>d. if d = - 1 then x else nat d) ds = map nat ds" for x
    using assms by (intro map_cong) auto
  have "\<not> (\<exists>d \<in> set ds. d < - 1)" using assms by auto
  then show ?thesis by (simp add: reshape_def Let_def f m)
qed

lemma matmul_shape2:
  assumes "matmul A B = Inr C" "shape A = [r, k]" "shape B = [k', n]"
  shows "shape C = [r, n]" and "wf_tensor C"
  using assms by (auto simp: matmul_def Let_def ndims_def bshape_def split: if_splits)

lemma calc_v_fc_shape:
  assumes "calc_v_fc V_prev W = Inr V"
  shows "ndims V = 3" and "shape V ! 1 = shape V_prev ! 1" and "wf_tensor V"
proof -
  obtain n_in where n_in: "shape_at V_prev 1 = Inr n_in"
    using assms by (auto simp: calc_v_fc_def ebind_Inr_iff)
  have n_in_eq: "n_in = shape V_prev ! 1"
    using n_in by (auto simp: shape_at_def py_index_def Let_def split: if_splits)
  obtain n_prev n_next where W: "shape W = [n_prev, n_next]"
    using assms n_in by (auto simp: calc_v_fc_def split: list.splits)
  obtain V1 V2 where r: "reshape V2 [- 1, int n_in, int n_next] = Inr V"
    using assms n_in W by (auto simp: calc_v_fc_def ebind_Inr_iff)
  show "ndims V = 3" using reshape_Inr(2) [OF r] by (simp add: ndims_def)
  show "shape V ! 1 = shape V_prev ! 1" using reshape_Inr(4) [OF r, of 1] n_in_eq by simp
  show "wf_tensor V" using reshape_Inr(3) [OF r] .
qed

lemma calc_v_conv_shape:
  assumes "calc_v_conv V_prev w stride pad boo_last = Inr V"
  shows "ndims V = 5" and "shape V ! 1 = shape V_prev ! 1" and "wf_tensor V"
proof -
  obtain d where d: "shape_at V_prev 1 = Inr d"
    using assms by (auto simp: calc_v_conv_def ebind_Inr_iff)
  have d_eq: "d = shape V_prev ! 1"
    using d by (auto simp: shape_at_def py_index_def Let_def split: if_splits)
  obtain V3 where r: "reshape V3 [- 1, int d, int (shape V3 ! 1), int (shape V3 ! 2), int (shape V3 ! 3)] = Inr V"
    using assms d by (auto simp: calc_v_conv_def ebind_Inr_iff)
  show "ndims V = 5" using reshape_Inr(2) [OF r] by (simp add: ndims_def)
  show "shape V ! 1 = shape V_prev ! 1" using reshape_Inr(4) [OF r, of 1] d_eq by simp
  show "wf_tensor V" using reshape_Inr(3) [OF r] .
qed

lemma calc_v_fc_compatible:
  assumes wf: "wf_tensor V_prev" and V: "shape V_prev = [b, d, n]" and W: "shape W = [n, m]"
  shows "calc_v_fc V_prev W =
           (if n = 0 \<or> d * m = 0 then Inl ShapeError
            else Inr \<lparr>shape = [b, d, m],
                      data = data (build [b * d, m] (\<lambda>idx. sum_list (map (\<lambda>l.
                               entry \<lparr>shape = [b * d, n], data = data V_prev\<rparr> [idx ! 0, l] * entry W [l, idx ! 1]) [0..<n]))) \<rparr>)"
proof -
  have len: "length (data V_prev) = b * d * n" using wf V by (simp add: wf_tensor_def)
  have s1: "shape_at V_prev 1 = Inr d" using V by (simp add: shape_at_def py_index_def)
  show ?thesis
  proof (cases "n = 0")
    case True
    then show ?thesis using s1 W by (simp add: calc_v_fc_def reshape_infer)
  next
    case n: False
    have r1: "reshape V_prev [- 1, int n] = Inr \<lparr>shape = [b * d, n], data = data V_prev\<rparr>"
      using n len by (simp add: reshape_infer)
    let ?X = "\<lparr>shape = [b * d, n], data = data V_prev\<rparr>"
    let ?C = "build [b * d, m] (\<lambda>idx. sum_list (map (\<lambda>l. entry ?X [idx ! 0, l] * entry W [l, idx ! 1]) [0..<n]))"
    have mm: "matmul ?X W = Inr ?C"
      using W by (simp add: matmul_def Let_def ndims_def bshape_def bidx_def)
    have lenC: "length (data ?C) = b * d * m" by (simp add: build_def)
    have r2: "reshape ?C [- 1, int d, int m] =
                (if d * m = 0 then Inl ShapeError else Inr \<lparr>shape = [b, d, m], data = data ?C\<rparr>)"
    proof (cases "d * m = 0")
      case True
      then show ?thesis by (auto simp: reshape_infer)
    next
      case False
      have "b * d * m div (d * m) = b" using False by (simp add: mult.assoc)
      moreover have "b * d * m mod (d * m) = 0" by (simp add: mult.assoc)
      ultimately show ?thesis using False lenC by (simp add: reshape_infer del: mult_eq_0_iff)
    qed
    have "calc_v_fc V_prev W = reshape ?C [- 1, int d, int m]"
      using s1 W r1 mm by (simp add: calc_v_fc_def)
    then show ?thesis using r2 n by simp
  qed
qed

section \<open>Sorting and selection\<close>





section \<open>Tensors of rank 2\<close>

lemma shape_tmap [simp]: "shape (tmap f T) = shape T"
  by (simp add: tmap_def)

lemma wf_tmap [simp]: "wf_tensor (tmap f T) = wf_tensor T"
  by (simp add: tmap_def wf_tensor_def)

lemma data_tmap [simp]: "data (tmap f T) = map f (data T)"
  by (simp add: tmap_def)

lemma entry_tmap:
  "wf_tensor T \<Longrightarrow> valid_idx (shape T) idx \<Longrightarrow> entry (tmap f T) idx = f (entry T idx)"
  using ravel_bound [of "shape T" idx] by (simp add: entry_def wf_tensor_def)

lemma bshape_rev_same: "bshape_rev xs xs = Some xs"
  by (induction xs) simp_all

lemma bshape_same [simp]: "bshape sh sh = Some sh"
  by (simp add: bshape_def bshape_rev_same)

lemma bidx_same: "valid_idx sh idx \<Longrightarrow> bidx sh idx = idx"
proof (induction sh arbitrary: idx)
  case Nil
  then show ?case by (simp add: bidx_def)
next
  case (Cons n sh)
  then obtain i "is" where idx: "idx = i # is" "i < n" "valid_idx sh is" by auto
  have "length is = length sh" using idx(3) by (rule valid_idx_length)
  then have "bidx sh is = map (\<lambda>(n, i). if n = 1 then 0 else i) (zip sh is)"
    by (simp add: bidx_def)
  then show ?case using Cons.IH [OF idx(3)] idx \<open>length is = length sh\<close>
    by (auto simp: bidx_def)
qed

lemma bop_same:
  assumes "shape A = shape B"
  shows "\<exists>C. bop f A B = Inr C \<and> shape C = shape A \<and> wf_tensor C
           \<and> (\<forall>idx. valid_idx (shape A) idx \<longrightarrow> entry C idx = f (entry A idx) (entry B idx))"
proof -
  let ?C = "build (shape A) (\<lambda>idx. f (entry A (bidx (shape A) idx)) (entry B (bidx (shape B) idx)))"
  have "bop f A B = Inr ?C" using assms by (simp add: bop_def)
  moreover have "entry ?C idx = f (entry A idx) (entry B idx)" if "valid_idx (shape A) idx" for idx
    using that assms by (simp add: entry_build bidx_same)
  ultimately show ?thesis by auto
qed

lemma entry2: "entry T [b, j] = data T ! ravel (shape T) [b, j]"
  by (simp add: entry_def)

lemma valid_idx2 [simp]: "valid_idx [B, N] [b, j] \<longleftrightarrow> b < B \<and> j < N"
  by simp

lemma valid_idx1 [simp]: "valid_idx [B] [b] \<longleftrightarrow> b < B"
  by simp


lemma fibre2:
  "shape T = [B, N] \<Longrightarrow> fibre T (Suc 0) [b] = map (\<lambda>j. entry T [b, j]) [0..<N]"
  by (simp add: fibre_def ins_def)



lemma reduce2:
  assumes "shape M = [B, K]"
  shows "\<exists>R. reduce g M 1 False = Inr R \<and> shape R = [B] \<and> wf_tensor R
           \<and> (\<forall>b < B. entry R [b] = g (map (\<lambda>i. entry M [b, i]) [0..<K]))"
proof -
  let ?R = "build [B] (\<lambda>idx. g (fibre M 1 idx))"
  have "reduce g M 1 False = Inr ?R"
    using assms by (simp add: reduce_def ndims_def del_def build_def)
  moreover have "entry ?R [b] = g (map (\<lambda>i. entry M [b, i]) [0..<K])" if "b < B" for b
    using that assms by (simp add: entry_build fibre2)
  ultimately show ?thesis by auto
qed


lemma rand_eq: "rand n g = (map g [0..<n], (\<lambda>i. g (i + n)))"
  by (simp add: rand_def)



section \<open>Shapes of the convolution\<close>

lemma max_pool2d_Inr:
  assumes "max_pool2d X pad = Inr P"
  shows "wf_tensor P" and "\<exists>oh ow. shape P = [shape X ! 0, oh, ow, shape X ! 3]"
  using assms
  by (auto simp: max_pool2d_def ebind_Inr_iff split: if_splits prod.splits)

lemma conv2d_Inr:
  assumes "conv2d X w stride pad = Inr C"
  shows "wf_tensor C" and "\<exists>oh ow. shape C = [shape X ! 0, oh, ow, shape w ! 3]"
  using assms
  by (auto simp: conv2d_def ebind_Inr_iff split: if_splits prod.splits)

lemma calc_v_conv_wf_shape:
  assumes wf: "wf_tensor V_prev" and sh: "shape V_prev = [b, d, h, wd, c]"
    and run: "calc_v_conv V_prev w stride pad boo_last = Inr V"
  shows "\<exists>oh ow. shape V = [b, d, oh, ow, shape w ! 3]"
proof -
  have len: "length (data V_prev) = b * d * h * wd * c" using wf sh by (simp add: wf_tensor_def)
  have s: "shape_at V_prev 1 = Inr d" "shape_at V_prev 2 = Inr h" "shape_at V_prev 3 = Inr wd"
    "shape_at V_prev 4 = Inr c"
    using sh by (simp_all add: shape_at_def py_index_def)
  obtain X Y C where X: "reshape V_prev [- 1, int h, int wd, int c] = Inr X"
    and Y: "(if \<not> boo_last then max_pool2d X pad else Inr X) = Inr Y"
    and C: "conv2d Y w stride pad = Inr C"
    and V: "reshape C [- 1, int d, int (shape C ! 1), int (shape C ! 2), int (shape C ! 3)] = Inr V"
    using run s by (auto simp: calc_v_conv_def ebind_Inr_iff)
  have p: "h * wd * c \<noteq> 0" using X by (auto simp: reshape_infer split: if_splits)
  have "b * d * h * wd * c div (h * wd * c) = b * d" using p by (simp add: mult.assoc)
  then have X0: "shape X ! 0 = b * d" using X p len by (auto simp: reshape_infer mult.assoc split: if_splits)
  have Y0: "shape Y ! 0 = b * d"
    using Y X0 max_pool2d_Inr(2) [of X pad Y] by (auto split: if_splits)
  obtain oh ow where Csh: "shape C = [b * d, oh, ow, shape w ! 3]" and Cwf: "wf_tensor C"
    using conv2d_Inr [OF C] Y0 by auto
  let ?co = "shape w ! 3"
  have lenC: "length (data C) = b * d * oh * ow * ?co" using Cwf Csh by (simp add: wf_tensor_def)
  have V': "reshape C [- 1, int d, int oh, int ow, int ?co] = Inr V" using V Csh by simp
  have q: "d * oh * ow * ?co \<noteq> 0" using V' by (auto simp: reshape_infer mult.assoc split: if_splits)
  have "b * d * oh * ow * ?co = b * (d * oh * ow * ?co)" by (simp add: mult.assoc)
  then have "b * d * oh * ow * ?co div (d * oh * ow * ?co) = b" using q by simp
  then have "shape V = [b, d, oh, ow, ?co]"
    using V' q lenC by (auto simp: reshape_infer mult.assoc split: if_splits)
  then show ?thesis by blast
qed

section \<open>Broadcasting and reductions in general\<close>

lemma bcast_all2:
  fixes xs :: "nat list"
  shows "list_all2 (\<lambda>i n. i < n) js xs \<Longrightarrow>
   list_all2 (\<lambda>i n. i < n) (map (\<lambda>(n, i). if n = 1 then 0 else i) (zip xs js)) xs"
  by (induction js xs rule: list_all2_induct) auto

lemma bshape_rev_left:
  fixes js :: "nat list"
  shows "bshape_rev xs ys = Some zs \<Longrightarrow> list_all2 (\<lambda>i n. i < n) js zs \<Longrightarrow>
   list_all2 (\<lambda>i n. i < n) (map (\<lambda>(n, i). if n = 1 then 0 else i) (zip xs js)) xs"
proof (induction xs ys arbitrary: zs js rule: bshape_rev.induct)
  case (1 ys)
  then show ?case by simp
next
  case (2 v va)
  then show ?case using bcast_all2 by simp
next
  case (3 x xs y ys)
  from "3.prems"(1) obtain zs' where zs': "bshape_rev xs ys = Some zs'"
    and zs: "zs = (if x = y \<or> y = 1 then x else y) # zs'" and ok: "x = y \<or> y = 1 \<or> x = 1"
    by (auto split: if_splits)
  from "3.prems"(2) zs obtain i is' where i: "js = i # is'"
    "i < (if x = y \<or> y = 1 then x else y)" "list_all2 (\<lambda>i n. i < n) is' zs'"
    by (auto simp: list_all2_Cons2)
  have "list_all2 (\<lambda>i n. i < n) (map (\<lambda>(n, i). if n = 1 then 0 else i) (zip xs is')) xs"
    using "3.IH"(1) [OF _ zs' i(3)] "3.IH"(2) [OF _ _ zs' i(3)] ok by blast
  moreover have "(if x = 1 then 0 else i) < x" using i(2) ok by (auto split: if_splits)
  ultimately show ?case by (simp add: i(1))
qed

lemma bshape_rev_right:
  fixes js :: "nat list"
  shows "bshape_rev xs ys = Some zs \<Longrightarrow> list_all2 (\<lambda>i n. i < n) js zs \<Longrightarrow>
   list_all2 (\<lambda>i n. i < n) (map (\<lambda>(n, i). if n = 1 then 0 else i) (zip ys js)) ys"
proof (induction xs ys arbitrary: zs js rule: bshape_rev.induct)
  case (1 ys)
  then show ?case using bcast_all2 by simp
next
  case (2 v va)
  then show ?case by simp
next
  case (3 x xs y ys)
  from "3.prems"(1) obtain zs' where zs': "bshape_rev xs ys = Some zs'"
    and zs: "zs = (if x = y \<or> y = 1 then x else y) # zs'" and ok: "x = y \<or> y = 1 \<or> x = 1"
    by (auto split: if_splits)
  from "3.prems"(2) zs obtain i is' where i: "js = i # is'"
    "i < (if x = y \<or> y = 1 then x else y)" "list_all2 (\<lambda>i n. i < n) is' zs'"
    by (auto simp: list_all2_Cons2)
  have "list_all2 (\<lambda>i n. i < n) (map (\<lambda>(n, i). if n = 1 then 0 else i) (zip ys is')) ys"
    using "3.IH"(1) [OF _ zs' i(3)] "3.IH"(2) [OF _ _ zs' i(3)] ok by blast
  moreover have "(if y = 1 then 0 else i) < y" using i(2) ok by (auto split: if_splits)
  ultimately show ?case by (simp add: i(1))
qed

lemma bshape_rev_length:
  "bshape_rev xs ys = Some zs \<Longrightarrow> length zs = max (length xs) (length ys)"
  by (induction xs ys arbitrary: zs rule: bshape_rev.induct) (auto split: if_splits)

lemma zip_take_length: "zip xs (take (length xs) ys) = zip xs ys"
proof (induction xs arbitrary: ys)
  case Nil
  then show ?case by simp
next
  case (Cons x xs)
  then show ?case by (cases ys) simp_all
qed

lemma rev_bidx:
  assumes "length sa \<le> length idx"
  shows "rev (bidx sa idx) = map (\<lambda>(n, i). if n = 1 then 0 else i) (zip (rev sa) (rev idx))"
proof -
  have l: "length (drop (length idx - length sa) idx) = length sa" using assms by simp
  have "rev (bidx sa idx)
      = map (\<lambda>(n, i). if n = 1 then 0 else i) (zip (rev sa) (rev (drop (length idx - length sa) idx)))"
    using l by (simp add: bidx_def rev_map zip_rev)
  also have "rev (drop (length idx - length sa) idx) = take (length sa) (rev idx)"
    using assms by (simp add: rev_drop)
  also have "zip (rev sa) (take (length sa) (rev idx)) = zip (rev sa) (rev idx)"
    using zip_take_length [of "rev sa" "rev idx"] by simp
  finally show ?thesis .
qed

lemma bidx_valid:
  assumes "bshape sa sb = Some sh" "valid_idx sh idx"
  shows "valid_idx sa (bidx sa idx)" and "valid_idx sb (bidx sb idx)"
proof -
  obtain zs where zs: "bshape_rev (rev sa) (rev sb) = Some zs" "sh = rev zs"
    using assms(1) by (auto simp: bshape_def)
  have v: "list_all2 (\<lambda>i n. i < n) (rev idx) zs"
    using assms(2) zs(2) by (simp add: valid_idx_def list_all2_rev1)
  have len: "length idx = max (length sa) (length sb)"
    using bshape_rev_length [OF zs(1)] list_all2_lengthD [OF v] by simp
  have "list_all2 (\<lambda>i n. i < n) (rev (bidx sa idx)) (rev sa)"
    using bshape_rev_left [OF zs(1) v] len by (simp add: rev_bidx)
  then show "valid_idx sa (bidx sa idx)" by (simp add: valid_idx_def list_all2_rev1)
  have "list_all2 (\<lambda>i n. i < n) (rev (bidx sb idx)) (rev sb)"
    using bshape_rev_right [OF zs(1) v] len by (simp add: rev_bidx)
  then show "valid_idx sb (bidx sb idx)" by (simp add: valid_idx_def list_all2_rev1)
qed

lemma bop_Inr:
  assumes "bop f A B = Inr C"
  shows "wf_tensor C" and "bshape (shape A) (shape B) = Some (shape C)"
    and "\<And>idx. valid_idx (shape C) idx \<Longrightarrow>
           entry C idx = f (entry A (bidx (shape A) idx)) (entry B (bidx (shape B) idx))"
    and "wf_tensor A \<Longrightarrow> wf_tensor B \<Longrightarrow> v \<in> set (data C) \<Longrightarrow>
           \<exists>a \<in> set (data A). \<exists>b \<in> set (data B). v = f a b"
proof -
  obtain sh where sh: "bshape (shape A) (shape B) = Some sh"
    and C: "C = build sh (\<lambda>idx. f (entry A (bidx (shape A) idx)) (entry B (bidx (shape B) idx)))"
    using assms by (auto simp: bop_def split: option.splits)
  show "wf_tensor C" by (simp add: C)
  show "bshape (shape A) (shape B) = Some (shape C)" by (simp add: C sh)
  show "entry C idx = f (entry A (bidx (shape A) idx)) (entry B (bidx (shape B) idx))"
    if "valid_idx (shape C) idx" for idx
    using that by (simp add: C entry_build)
  show "\<exists>a \<in> set (data A). \<exists>b \<in> set (data B). v = f a b"
    if wf: "wf_tensor A" "wf_tensor B" and v: "v \<in> set (data C)"
  proof -
    obtain idx where idx: "valid_idx sh idx"
      "v = f (entry A (bidx (shape A) idx)) (entry B (bidx (shape B) idx))"
      using v unfolding C data_build_mem by blast
    have "entry A (bidx (shape A) idx) \<in> set (data A)"
      using wf(1) bidx_valid(1) [OF sh idx(1)] by (rule entry_mem)
    moreover have "entry B (bidx (shape B) idx) \<in> set (data B)"
      using wf(2) bidx_valid(2) [OF sh idx(1)] by (rule entry_mem)
    ultimately show ?thesis using idx(2) by blast
  qed
qed

lemma ins_valid:
  assumes "valid_idx (del a sh) idx" "a < length sh" "j < sh ! a"
  shows "valid_idx sh (ins a j idx)"
proof -
  have sh: "sh = take a sh @ [sh ! a] @ drop (Suc a) sh"
    using assms(2) by (simp add: id_take_nth_drop [symmetric])
  have all: "list_all2 (\<lambda>i n. i < n) idx (take a sh @ drop (Suc a) sh)"
    using assms(1) by (simp add: valid_idx_def del_def)
  then obtain us vs where uv: "idx = us @ vs" "length us = length (take a sh)"
    "list_all2 (\<lambda>i n. i < n) us (take a sh)" "list_all2 (\<lambda>i n. i < n) vs (drop (Suc a) sh)"
    by (auto simp: list_all2_append2)
  have la: "length us = a" using uv(2) assms(2) by simp
  have i: "ins a j idx = us @ [j] @ vs" using uv(1) la by (simp add: ins_def)
  have "list_all2 (\<lambda>i n. i < n) (us @ [j] @ vs) (take a sh @ [sh ! a] @ drop (Suc a) sh)"
    using uv(3,4) assms(3) by (intro list_all2_appendI) simp_all
  then have "list_all2 (\<lambda>i n. i < n) (ins a j idx) sh" using sh i by simp
  then show ?thesis by (simp add: valid_idx_def)
qed

lemma prod_list_del:
  "a < length sh \<Longrightarrow> prod_list (sh[a := Suc 0]) = prod_list (del a sh)"
proof -
  assume a: "a < length sh"
  have "sh[a := Suc 0] = take a sh @ [Suc 0] @ drop (Suc a) sh"
    using a by (simp add: upd_conv_take_nth_drop)
  then show ?thesis by (simp add: del_def)
qed

lemma reduce_Inr:
  assumes "reduce g T a kd = Inr R"
  shows "wf_tensor R" and "a < ndims T"
    and "wf_tensor T \<Longrightarrow> v \<in> set (data R) \<Longrightarrow>
           \<exists>xs. set xs \<subseteq> set (data T) \<and> length xs = shape T ! a \<and> v = g xs"
    and "\<not> kd \<Longrightarrow> shape R = del a (shape T)"
proof -
  have a: "a < ndims T" using assms by (auto simp: reduce_def split: if_splits)
  then show "a < ndims T" .
  have R: "R = \<lparr>shape = (if kd then (shape T)[a := 1] else del a (shape T)),
                data = data (build (del a (shape T)) (\<lambda>idx. g (fibre T a idx)))\<rparr>"
    using assms a by (simp add: reduce_def)
  show "wf_tensor R"
    using a by (simp add: R wf_tensor_def build_def prod_list_del ndims_def)
  show "shape R = del a (shape T)" if "\<not> kd" using that by (simp add: R)
  show "\<exists>xs. set xs \<subseteq> set (data T) \<and> length xs = shape T ! a \<and> v = g xs"
    if wf: "wf_tensor T" and v: "v \<in> set (data R)"
  proof -
    obtain idx where idx: "valid_idx (del a (shape T)) idx" "v = g (fibre T a idx)"
      using v unfolding R by (auto simp: data_build_mem)
    have "entry T (ins a j idx) \<in> set (data T)" if "j < shape T ! a" for j
      using wf ins_valid [OF idx(1) _ that] a by (intro entry_mem) (simp_all add: ndims_def)
    then have "set (fibre T a idx) \<subseteq> set (data T)" by (auto simp: fibre_def)
    moreover have "length (fibre T a idx) = shape T ! a" by (simp add: fibre_def)
    ultimately show ?thesis using idx(2) by blast
  qed
qed

section \<open>Signs of the terms\<close>

lemma zero_out_Inr:
  assumes "zero_out_non_min_distances dst k g = Inr (th, g')"
  shows "wf_tensor th" and "\<forall>v \<in> set (data th). v = 0 \<or> v = 1"
proof -
  obtain D T where th: "bop (\<lambda>d t. if k \<noteq> 0 \<and> d \<le> t then 1 else 0) D T = Inr th"
    using assms
    by (auto simp: zero_out_non_min_distances_def ebind_Inr_iff rand_eq)
  show "wf_tensor th" using th by (rule bop_Inr(1))
  show "\<forall>v \<in> set (data th). v = 0 \<or> v = 1"
    using th by (auto simp: bop_def data_build_mem split: option.splits)
qed

lemma hinge_Inr:
  assumes "hinge dst gamma = Inr h"
  shows "wf_tensor h" and "nonneg h"
proof -
  obtain r where r: "bop (/) dst (as_tensor gamma) = Inr r" and h: "h = tmap (\<lambda>v. max 0 (1 - v)) r"
    using assms by (auto simp: hinge_def ebind_Inr_iff)
  show "wf_tensor h" using bop_Inr(1) [OF r] by (simp add: h)
  show "nonneg h" by (auto simp: h nonneg_def)
qed

lemma sum_list_nonneg_real: "(\<forall>x \<in> set xs. 0 \<le> x) \<Longrightarrow> 0 \<le> sum_list (xs :: real list)"
  by (induction xs) auto

lemma reduce_sum_nonneg:
  assumes "reduce_sum T a = Inr s" "wf_tensor T" "nonneg T"
  shows "nonneg s" and "wf_tensor s"
proof -
  have r: "reduce sum_list T a False = Inr s" using assms(1) by (simp add: reduce_sum_def)
  show "wf_tensor s" using r by (rule reduce_Inr(1))
  show "nonneg s" unfolding nonneg_def
  proof
    fix v assume "v \<in> set (data s)"
    then obtain xs where "set xs \<subseteq> set (data T)" "v = sum_list xs"
      using reduce_Inr(3) [OF r assms(2)] by blast
    then show "0 \<le> v" using assms(3) by (auto simp: nonneg_def intro!: sum_list_nonneg_real)
  qed
qed

lemma masked_sum_nonneg:
  assumes "masked_sum th h = Inr s" "wf_tensor th" "wf_tensor h" "nonneg th" "nonneg h"
  shows "nonneg s"
proof -
  obtain p where p: "bop times th h = Inr p" and s: "reduce_sum p 1 = Inr s"
    using assms(1) by (auto simp: masked_sum_def ebind_Inr_iff)
  have "nonneg p" unfolding nonneg_def
  proof
    fix v assume "v \<in> set (data p)"
    then obtain a b where "a \<in> set (data th)" "b \<in> set (data h)" "v = a * b"
      using bop_Inr(4) [OF p assms(2,3)] by blast
    then show "0 \<le> v" using assms(4,5) by (simp add: nonneg_def)
  qed
  then show ?thesis using reduce_sum_nonneg(1) [OF s bop_Inr(1) [OF p]] by simp
qed

lemma union_mask_Inr:
  assumes "union_mask a b = Inr th" "wf_tensor a" "wf_tensor b"
    "\<forall>v \<in> set (data a). v = 0 \<or> v = 1" "\<forall>v \<in> set (data b). v = 0 \<or> v = 1"
  shows "wf_tensor th" and "\<forall>v \<in> set (data th). v = 0 \<or> v = 1"
proof -
  obtain t where t: "bop (+) a b = Inr t" and th: "th = tmap (\<lambda>v. min v 1) t"
    using assms(1) by (auto simp: union_mask_def ebind_Inr_iff)
  show "wf_tensor th" using bop_Inr(1) [OF t] by (simp add: th)
  show "\<forall>v \<in> set (data th). v = 0 \<or> v = 1"
  proof
    fix v assume "v \<in> set (data th)"
    then obtain u where u: "u \<in> set (data t)" "v = min u 1" by (auto simp: th)
    obtain x y where xy: "x \<in> set (data a)" "y \<in> set (data b)" "u = x + y"
      using bop_Inr(4) [OF t assms(2,3) u(1)] by blast
    have "x = 0 \<or> x = 1" "y = 0 \<or> y = 1" using assms(4,5) xy by blast+
    then show "v = 0 \<or> v = 1" using u(2) xy(3) by (auto simp: min_def)
  qed
qed

lemma mask_nonneg: "\<forall>v \<in> set (data th). v = 0 \<or> v = (1::real) \<Longrightarrow> nonneg th"
  by (auto simp: nonneg_def)

lemma mmr_single_nonneg:
  assumes "mmr_single q L y_pred y_true h_in w_in c_in n_out n_rb n_db gamma_rb gamma_db bs g = Inr (r, g')"
  shows "\<exists>rb db. r = Terms2 rb db \<and> nonneg rb \<and> nonneg db"
proof -
  obtain dist_rb th1 g1 h1 rb dist_db th2 g2 h2 db where
    z1: "zero_out_non_min_distances dist_rb n_rb g = Inr (th1, g1)" and
    h1: "hinge dist_rb gamma_rb = Inr h1" and
    rb: "masked_sum th1 h1 = Inr rb" and
    z2: "zero_out_non_min_distances dist_db n_db g1 = Inr (th2, g2)" and
    h2: "hinge dist_db gamma_db = Inr h2" and
    db: "masked_sum th2 h2 = Inr db" and
    r: "r = Terms2 rb db"
    using assms by (auto simp: mmr_single_def ebind_Inr_iff)
  have "nonneg rb"
    using masked_sum_nonneg [OF rb zero_out_Inr(1) [OF z1] hinge_Inr(1) [OF h1]
        mask_nonneg [OF zero_out_Inr(2) [OF z1]] hinge_Inr(2) [OF h1]] .
  moreover have "nonneg db"
    using masked_sum_nonneg [OF db zero_out_Inr(1) [OF z2] hinge_Inr(1) [OF h2]
        mask_nonneg [OF zero_out_Inr(2) [OF z2]] hinge_Inr(2) [OF h2]] .
  ultimately show ?thesis using r by blast
qed

lemma mmr_univ_nonneg:
  assumes "mmr_univ L y_pred y_true h_in w_in c_in n_out n_rb n_db gamma_rb gamma_db bs g = Inr (r, g')"
  shows "\<exists>a b c d. r = Terms4 a b c d \<and> nonneg a \<and> nonneg b \<and> nonneg c \<and> nonneg d"
proof -
  obtain d1 d2 th1 g1 th2 g2 th ga gb ha a hb b e1 e2 gc gd hc c hd d where
    z1: "zero_out_non_min_distances d1 n_rb g = Inr (th1, g1)" and
    z2: "zero_out_non_min_distances d2 n_rb g1 = Inr (th2, g2)" and
    u: "union_mask th1 th2 = Inr th" and
    ha: "hinge d1 ga = Inr ha" and a: "masked_sum th ha = Inr a" and
    hb: "hinge d2 gb = Inr hb" and b: "masked_sum th hb = Inr b" and
    hc: "hinge e1 gc = Inr hc" and c: "reduce_sum hc 1 = Inr c" and
    hd: "hinge e2 gd = Inr hd" and d: "reduce_sum hd 1 = Inr d" and
    r: "r = Terms4 a b c d"
    using assms by (auto simp: mmr_univ_def ebind_Inr_iff)
  note m = union_mask_Inr [OF u zero_out_Inr(1) [OF z1] zero_out_Inr(1) [OF z2]
      zero_out_Inr(2) [OF z1] zero_out_Inr(2) [OF z2]]
  have "nonneg a"
    using masked_sum_nonneg [OF a m(1) hinge_Inr(1) [OF ha] mask_nonneg [OF m(2)] hinge_Inr(2) [OF ha]] .
  moreover have "nonneg b"
    using masked_sum_nonneg [OF b m(1) hinge_Inr(1) [OF hb] mask_nonneg [OF m(2)] hinge_Inr(2) [OF hb]] .
  moreover have "nonneg c"
    using reduce_sum_nonneg(1) [OF c hinge_Inr(1) [OF hc] hinge_Inr(2) [OF hc]] .
  moreover have "nonneg d"
    using reduce_sum_nonneg(1) [OF d hinge_Inr(1) [OF hd] hinge_Inr(2) [OF hd]] .
  ultimately show ?thesis using r by blast
qed

section \<open>The entry point and the hinge sums\<close>

lemma py_index_Inr_last: "py_index xs (- 1) = Inr y \<Longrightarrow> xs \<noteq> [] \<and> y = last xs"
  by (cases xs rule: rev_cases) (auto simp: py_index_def split: if_splits)

lemma shape_at_Inr: "shape_at T (int i) = Inr n \<Longrightarrow> i < ndims T \<and> n = shape T ! i"
  by (auto simp: shape_at_def py_index_nat ndims_def split: if_splits)

lemma mmr_cnn_Inr:
  assumes "mmr_cnn z_list x y_true n_rb n_db gamma_rb gamma_db bs q weights g = Inr res"
  shows "\<exists>L. partition_layers z_list weights 0 (length z_list) no_layers = Inr L
           \<and> z_list \<noteq> [] \<and> 4 \<le> ndims x \<and> 2 \<le> ndims y_true
           \<and> (case norm_of q of
                 Some ord \<Rightarrow> mmr_single ord L (last z_list) y_true (shape x ! 1) (shape x ! 2) (shape x ! 3)
                               (shape y_true ! 1) n_rb n_db gamma_rb gamma_db bs g = Inr res
               | None \<Rightarrow> if q = QStr ''univ''
                   then mmr_univ L (last z_list) y_true (shape x ! 1) (shape x ! 2) (shape x ! 3)
                               (shape y_true ! 1) n_rb n_db gamma_rb gamma_db bs g = Inr res
                   else res = (PyNone, g))"
proof -
  obtain y_pred L h_in w_in c_in n_out where
    y: "py_index z_list (- 1) = Inr y_pred" and
    L: "partition_layers z_list weights 0 (length z_list) no_layers = Inr L" and
    s: "shape_at x (int 1) = Inr h_in" "shape_at x (int 2) = Inr w_in" "shape_at x (int 3) = Inr c_in"
       "shape_at y_true (int 1) = Inr n_out" and
    r: "(case norm_of q of
          Some ord \<Rightarrow> mmr_single ord L y_pred y_true h_in w_in c_in n_out n_rb n_db gamma_rb gamma_db bs g
        | None \<Rightarrow> if q = QStr ''univ''
            then mmr_univ L y_pred y_true h_in w_in c_in n_out n_rb n_db gamma_rb gamma_db bs g
            else Inr (PyNone, g)) = Inr res"
    using assms by (auto simp: mmr_cnn_def ebind_Inr_iff)
  note yl = py_index_Inr_last [OF y]
  note sx = shape_at_Inr [OF s(1)] shape_at_Inr [OF s(2)] shape_at_Inr [OF s(3)] shape_at_Inr [OF s(4)]
  have "case norm_of q of
          Some ord \<Rightarrow> mmr_single ord L (last z_list) y_true (shape x ! 1) (shape x ! 2) (shape x ! 3)
                        (shape y_true ! 1) n_rb n_db gamma_rb gamma_db bs g = Inr res
        | None \<Rightarrow> if q = QStr ''univ''
            then mmr_univ L (last z_list) y_true (shape x ! 1) (shape x ! 2) (shape x ! 3)
                        (shape y_true ! 1) n_rb n_db gamma_rb gamma_db bs g = Inr res
            else res = (PyNone, g)"
    using r yl sx by (auto split: option.splits if_splits)
  then show ?thesis using L yl sx by auto
qed

lemma norm_of_univ [simp]: "norm_of (QStr s) = None"
  by (simp add: norm_of_def)

lemma bop_scalar2:
  assumes "shape A = [B, K]"
  shows "\<exists>C. bop f A (scalar c) = Inr C \<and> shape C = [B, K] \<and> wf_tensor C
           \<and> (\<forall>b < B. \<forall>k < K. entry C [b, k] = f (entry A [b, k]) c)"
proof -
  let ?C = "build [B, K] (\<lambda>idx. f (entry A (bidx [B, K] idx)) (entry (scalar c) (bidx [] idx)))"
  have bs: "bshape [B, K] [] = Some [B, K]" by (simp add: bshape_def)
  have "bop f A (scalar c) = Inr ?C" using assms bs by (simp add: bop_def scalar_def)
  moreover have "entry ?C [b, k] = f (entry A [b, k]) c" if "b < B" "k < K" for b k
  proof -
    have "bidx [B, K] [b, k] = [b, k]" using that by (intro bidx_same) simp
    moreover have "entry (scalar c) (bidx [] [b, k]) = c"
      by (simp add: bidx_def scalar_def entry_def)
    ultimately show ?thesis using that by (simp add: entry_build)
  qed
  ultimately show ?thesis by auto
qed

lemma hinge2:
  assumes "wf_tensor dd" "shape dd = [B, K]" "hinge dd (Num \<gamma>) = Inr h"
  shows "shape h = [B, K]" and "wf_tensor h"
    and "\<forall>b < B. \<forall>k < K. entry h [b, k] = max 0 (1 - entry dd [b, k] / \<gamma>)"
proof -
  obtain C where C: "bop (/) dd (scalar \<gamma>) = Inr C" "shape C = [B, K]" "wf_tensor C"
    "\<forall>b < B. \<forall>k < K. entry C [b, k] = entry dd [b, k] / \<gamma>"
    using bop_scalar2 [OF assms(2), of "(/)" \<gamma>] by auto
  have h: "h = tmap (\<lambda>v. max 0 (1 - v)) C"
    using assms(3) C(1) by (simp add: hinge_def as_tensor_def)
  show "shape h = [B, K]" "wf_tensor h" using C by (simp_all add: h)
  show "\<forall>b < B. \<forall>k < K. entry h [b, k] = max 0 (1 - entry dd [b, k] / \<gamma>)"
    using C by (simp add: h entry_tmap)
qed

lemma reduce_sum2:
  assumes "shape h = [B, K]" "reduce_sum h 1 = Inr s"
  shows "shape s = [B]" and "\<forall>b < B. entry s [b] = (\<Sum>k\<leftarrow>[0..<K]. entry h [b, k])"
  using reduce2 [OF assms(1), of sum_list] assms(2)
  by (auto simp: reduce_sum_def comp_def)

lemma masked_sum2:
  assumes "shape th = [B, K]" "shape h = [B, K]" "masked_sum th h = Inr s"
  shows "shape s = [B]" and "\<forall>b < B. entry s [b] = (\<Sum>k\<leftarrow>[0..<K]. entry th [b, k] * entry h [b, k])"
proof -
  obtain p where p: "bop times th h = Inr p" "shape p = [B, K]"
    "\<forall>idx. valid_idx (shape th) idx \<longrightarrow> entry p idx = entry th idx * entry h idx"
    using bop_same [of th h times] assms(1,2) by auto
  have s: "reduce_sum p 1 = Inr s" using assms(3) p(1) by (simp add: masked_sum_def)
  show "shape s = [B]" using reduce_sum2(1) [OF p(2) s] .
  have "(\<Sum>k\<leftarrow>[0..<K]. entry p [b, k]) = (\<Sum>k\<leftarrow>[0..<K]. entry th [b, k] * entry h [b, k])"
    if "b < B" for b
    using p(3) assms(1) that by (intro arg_cong [where f = sum_list] map_cong) simp_all
  then show "\<forall>b < B. entry s [b] = (\<Sum>k\<leftarrow>[0..<K]. entry th [b, k] * entry h [b, k])"
    using reduce_sum2(2) [OF p(2) s] by simp
qed

lemma map_sum_fst_Inr: "map_sum id fst X = Inr a \<Longrightarrow> \<exists>b. X = Inr (a, b)"
  by (cases X) auto

section \<open>Claims\<close>

text \<open>
  C7, as the code has it. For a norm \<open>q\<close> that is neither 1, 2 or infinity nor the string
  \<open>'univ'\<close>, \<open>mmr_cnn\<close> raises no unsupported-norm error. It first partitions the layers
  and reads the shapes of \<open>x\<close> and \<open>y_true\<close>, which can raise an index or shape error on
  malformed arguments; then neither branch is taken and the function returns \<open>None\<close>,
  leaving the random generator as it was. On a non-empty list of pre-activations of rank
  at least 1, with a weight for each, an input of rank 4 and labels of rank 2, it does
  return \<open>None\<close>.
\<close>

theorem mmr_cnn_unrecognised_q:
  assumes "norm_of q = None" and "q \<noteq> QStr ''univ''"
  shows "(mmr_cnn z_list x y_true n_rb n_db gamma_rb gamma_db bs q weights g = Inr (PyNone, g)
          \<or> mmr_cnn z_list x y_true n_rb n_db gamma_rb gamma_db bs q weights g = Inl IndexError
          \<or> mmr_cnn z_list x y_true n_rb n_db gamma_rb gamma_db bs q weights g = Inl ShapeError)
       \<and> (z_list \<noteq> [] \<and> (\<forall>z \<in> set z_list. ndims z \<noteq> 0) \<and> 2 * length z_list \<le> Suc (length weights)
            \<and> 4 \<le> ndims x \<and> 2 \<le> ndims y_true
          \<longrightarrow> mmr_cnn z_list x y_true n_rb n_db gamma_rb gamma_db bs q weights g = Inr (PyNone, g))"
proof (intro conjI impI)
  let ?m = "mmr_cnn z_list x y_true n_rb n_db gamma_rb gamma_db bs q weights g"
  let ?p = "partition_layers z_list weights 0 (length z_list) no_layers"
  show "?m = Inr (PyNone, g) \<or> ?m = Inl IndexError \<or> ?m = Inl ShapeError"
  proof (cases "py_index z_list (- 1)")
    case (Inl e)
    then show ?thesis using py_index_cases [of z_list "- 1"] by (auto simp: mmr_cnn_def)
  next
    case y: (Inr y_pred)
    show ?thesis
    proof (cases ?p)
      case (Inl e)
      then show ?thesis using y partition_layers_error [of z_list weights 0 "length z_list" no_layers e]
        by (auto simp: mmr_cnn_def)
    next
      case L: (Inr L)
      show ?thesis
        using y L assms shape_at_cases [of x 1] shape_at_cases [of x 2] shape_at_cases [of x 3]
          shape_at_cases [of y_true 1]
        by (auto simp: mmr_cnn_def)
    qed
  qed
next
  let ?m = "mmr_cnn z_list x y_true n_rb n_db gamma_rb gamma_db bs q weights g"
  assume a: "z_list \<noteq> [] \<and> (\<forall>z \<in> set z_list. ndims z \<noteq> 0) \<and> 2 * length z_list \<le> Suc (length weights)
            \<and> 4 \<le> ndims x \<and> 2 \<le> ndims y_true"
  obtain L where L: "partition_layers z_list weights 0 (length z_list) no_layers = Inr L"
    using partition_layers_ok [of 0 "length z_list" z_list weights no_layers] a by auto
  have x: "shape_at x 1 = Inr (shape x ! 1)" "shape_at x 2 = Inr (shape x ! 2)"
      "shape_at x 3 = Inr (shape x ! 3)"
    using a shape_at_ok [of 1 x] shape_at_ok [of 2 x] shape_at_ok [of 3 x] by simp_all
  have y: "shape_at y_true 1 = Inr (shape y_true ! 1)"
    using a shape_at_ok [of 1 y_true] by simp
  show "?m = Inr (PyNone, g)"
    using a L x y assms by (simp add: mmr_cnn_def py_index_last)
qed

theorem mmr_cnn_unrecognised_q_witness:
  "mmr_cnn [toy_z0, toy_z1] toy_x toy_y 1 1 (Num 1) (Num 1) 1 (QNum 3)
     [toy_W0, toy_b0, toy_W1, toy_b1] half_rng = Inr (PyNone, half_rng)"
proof -
  have q: "norm_of (QNum 3) = None" "QNum 3 \<noteq> QStr ''univ''"
    by (simp_all add: norm_of_def)
  have ok: "[toy_z0, toy_z1] \<noteq> [] \<and> (\<forall>z \<in> set [toy_z0, toy_z1]. ndims z \<noteq> 0)
      \<and> 2 * length [toy_z0, toy_z1] \<le> Suc (length [toy_W0, toy_b0, toy_W1, toy_b1])
      \<and> 4 \<le> ndims toy_x \<and> 2 \<le> ndims toy_y"
    by (simp add: ndims_def toy_z0_def toy_z1_def toy_x_def toy_y_def)
  show ?thesis
    using mmr_cnn_unrecognised_q [OF q, where z_list = "[toy_z0, toy_z1]"
        and weights = "[toy_W0, toy_b0, toy_W1, toy_b1]" and x = toy_x and y_true = toy_y
        and g = half_rng and n_rb = 1 and n_db = 1 and gamma_rb = "Num 1" and gamma_db = "Num 1"
        and bs = 1] ok
    by blast
qed

text \<open>
  C7 as stated fails: with \<open>q = 3\<close> the two-layer example network gets the result
  \<open>None\<close>, not an error.
\<close>

theorem mmr_cnn_unrecognised_q_counterexample:
  "norm_of (QNum 3) = None \<and> QNum 3 \<noteq> QStr ''univ'' \<and>
   map_sum id fst (mmr_cnn [toy_z0, toy_z1] toy_x toy_y 1 1 (Num 1) (Num 1) 1 (QNum 3)
     [toy_W0, toy_b0, toy_W1, toy_b1] half_rng) = Inr PyNone"
  by code_simp

text \<open>
  C10. \<open>mmr_cnn\<close> reads the weights list at the even indices only: two lists of the same
  length that agree at every even index give the same result, whatever the other
  arguments and the state of the random generator are.
\<close>

theorem mmr_cnn_ignores_biases:
  assumes "length weights = length weights'"
    and "\<forall>i < length weights. even i \<longrightarrow> weights ! i = weights' ! i"
  shows "mmr_cnn z_list x y_true n_rb n_db gamma_rb gamma_db bs q weights g
       = mmr_cnn z_list x y_true n_rb n_db gamma_rb gamma_db bs q weights' g"
proof -
  have "py_index weights (2 * int i) = py_index weights' (2 * int i)" for i
    using assms by (simp add: py_index_even)
  then have "partition_layers z_list weights 0 (length z_list) no_layers
           = partition_layers z_list weights' 0 (length z_list) no_layers"
    by (rule partition_layers_weights_cong)
  then show ?thesis by (simp add: mmr_cnn_def)
qed

theorem mmr_cnn_ignores_biases_witness:
  "mmr_cnn [toy_z0, toy_z1] toy_x toy_y 1 1 (Num 1) (Num 1) 1 QInf
     [toy_W0, toy_b0, toy_W1, toy_b1] half_rng
   = mmr_cnn [toy_z0, toy_z1] toy_x toy_y 1 1 (Num 1) (Num 1) 1 QInf
     [toy_W0, zero_bias 1, toy_W1, toy_W2] half_rng"
proof -
  have "\<forall>i < length [toy_W0, toy_b0, toy_W1, toy_b1]. even i \<longrightarrow>
          [toy_W0, toy_b0, toy_W1, toy_b1] ! i = [toy_W0, zero_bias 1, toy_W1, toy_W2] ! i"
    by (auto simp: less_Suc_eq)
  then show ?thesis
    by (intro mmr_cnn_ignores_biases) simp_all
qed



text \<open>
  C4. Both propagation entry points keep the axis of the input dimensions: whenever
  \<open>calc_v_fc\<close> returns, its result has rank 3 and the size of axis 1 of \<open>V_prev\<close>, and
  whenever \<open>calc_v_conv\<close> returns, its result has rank 5 and the size of axis 1 of
  \<open>V_prev\<close>. On a well-formed \<open>V_prev\<close> of shape batch, d, n and a weight matrix of shape
  n, m (with non-zero n, d and m) \<open>calc_v_fc\<close> does return, with shape batch, d, m; on a
  well-formed \<open>V_prev\<close> of rank 5 the result of \<open>calc_v_conv\<close> keeps the batch axis as
  well, and its last axis is the number of output channels of the filter.
\<close>

theorem propagators_preserve_input_axis:
  "(calc_v_fc V_fc W = Inr V \<longrightarrow> ndims V = 3 \<and> shape V ! 1 = shape V_fc ! 1)
   \<and> (calc_v_conv V_cv w stride pad boo_last = Inr V' \<longrightarrow> ndims V' = 5 \<and> shape V' ! 1 = shape V_cv ! 1)
   \<and> (wf_tensor V_fc \<and> shape V_fc = [b, d, n] \<and> shape W = [n, m] \<and> n \<noteq> 0 \<and> d * m \<noteq> 0
        \<longrightarrow> (\<exists>V. calc_v_fc V_fc W = Inr V \<and> shape V = [b, d, m]))
   \<and> (wf_tensor V_cv \<and> shape V_cv = [b', d', h, wd, c]
        \<and> calc_v_conv V_cv w stride pad boo_last = Inr V'
        \<longrightarrow> (\<exists>oh ow. shape V' = [b', d', oh, ow, shape w ! 3]))"
proof (intro conjI impI)
  assume "calc_v_fc V_fc W = Inr V"
  then show "ndims V = 3" "shape V ! 1 = shape V_fc ! 1"
    by (rule calc_v_fc_shape)+
next
  assume "calc_v_conv V_cv w stride pad boo_last = Inr V'"
  then show "ndims V' = 5" "shape V' ! 1 = shape V_cv ! 1"
    by (rule calc_v_conv_shape)+
next
  assume a: "wf_tensor V_fc \<and> shape V_fc = [b, d, n] \<and> shape W = [n, m] \<and> n \<noteq> 0 \<and> d * m \<noteq> 0"
  then have "calc_v_fc V_fc W =
      (if n = 0 \<or> d * m = 0 then Inl ShapeError
       else Inr \<lparr>shape = [b, d, m],
                 data = data (build [b * d, m] (\<lambda>idx. sum_list (map (\<lambda>l.
                          entry \<lparr>shape = [b * d, n], data = data V_fc\<rparr> [idx ! 0, l] * entry W [l, idx ! 1]) [0..<n]))) \<rparr>)"
    by (intro calc_v_fc_compatible) simp_all
  then show "\<exists>V. calc_v_fc V_fc W = Inr V \<and> shape V = [b, d, m]"
    using a by simp
next
  assume "wf_tensor V_cv \<and> shape V_cv = [b', d', h, wd, c]
        \<and> calc_v_conv V_cv w stride pad boo_last = Inr V'"
  then show "\<exists>oh ow. shape V' = [b', d', oh, ow, shape w ! 3]"
    using calc_v_conv_wf_shape [of V_cv b' d' h wd c w stride pad boo_last V'] by blast
qed

theorem propagators_preserve_input_axis_witness:
  "(\<exists>V. calc_v_fc fc_V fc_W = Inr V \<and> shape V = [1, 2, 3])
   \<and> (\<exists>V'. calc_v_conv conv_V toy_W0 1 ''VALID'' False = Inr V' \<and> shape V' ! 1 = shape conv_V ! 1)"
proof
  have "wf_tensor fc_V \<and> shape fc_V = [1, 2, 2] \<and> shape fc_W = [2, 3] \<and> (2::nat) \<noteq> 0 \<and> (2::nat) * 3 \<noteq> 0"
    by (simp add: wf_tensor_def fc_V_def fc_W_def)
  then show "\<exists>V. calc_v_fc fc_V fc_W = Inr V \<and> shape V = [1, 2, 3]"
    using propagators_preserve_input_axis [where V_fc = fc_V and W = fc_W and b = 1 and d = 2
        and n = 2 and m = 3]
    by blast
next
  have run: "calc_v_conv conv_V toy_W0 1 ''VALID'' False = Inr \<lparr>shape = [1, 4, 1, 1, 1], data = [1, 1, 1, 1]\<rparr>"
    by code_simp
  then have "shape \<lparr>shape = [1, 4, 1, 1, 1], data = [1, 1, 1, 1]\<rparr> ! 1 = shape conv_V ! 1"
    using propagators_preserve_input_axis [where V_cv = conv_V and w = toy_W0 and stride = 1
        and pad = "''VALID''" and boo_last = False
        and V' = "\<lparr>shape = [1, 4, 1, 1, 1], data = [1, 1, 1, 1]\<rparr>"]
    by blast
  then show "\<exists>V'. calc_v_conv conv_V toy_W0 1 ''VALID'' False = Inr V' \<and> shape V' ! 1 = shape conv_V ! 1"
    using run by blast
qed

text \<open>
  C8. In the dual-norm branch each decision-boundary term is the sum over axis 1 of the
  hinge \<open>max(0, 1 - dist_db / gamma_db)\<close> with no mask, while in the single-norm branch
  the hinge is multiplied by the mask of \<open>zero_out_non_min_distances\<close> with
  \<open>k = n_db\<close> before the sum. For a batch-by-K distance tensor and a number \<open>gamma_db\<close>
  the two sums are, per example, the sum over the classes of the hinge, and of the mask
  times the hinge.
\<close>

theorem db_term_mask_asymmetry:
  "(mmr_cnn z_list x y_true n_rb n_db gamma_rb gamma_db bs (QStr ''univ'') weights g
      = Inr (Terms4 rb_l1 rb_linf db_l1 db_linf, g')
    \<longrightarrow> (\<exists>V n_in g1 g2 d1 d2 h1 h2.
          subscript gamma_db 0 = Inr g1 \<and> subscript gamma_db 1 = Inr g2
          \<and> db_distance_of Linf V (last z_list) y_true (shape y_true ! 1) n_in g1 = Inr d1
          \<and> hinge d1 g1 = Inr h1 \<and> reduce_sum h1 1 = Inr db_l1
          \<and> db_distance_of L1 V (last z_list) y_true (shape y_true ! 1) n_in g2 = Inr d2
          \<and> hinge d2 g2 = Inr h2 \<and> reduce_sum h2 1 = Inr db_linf))
   \<and> (norm_of q = Some ord
        \<and> mmr_cnn z_list x y_true n_rb n_db gamma_rb gamma_db bs q weights g = Inr (Terms2 rb db, g')
    \<longrightarrow> (\<exists>V n_in dd th ga gb h.
          db_distance_of ord V (last z_list) y_true (shape y_true ! 1) n_in gamma_db = Inr dd
          \<and> zero_out_non_min_distances dd n_db ga = Inr (th, gb)
          \<and> hinge dd gamma_db = Inr h \<and> masked_sum th h = Inr db))
   \<and> (wf_tensor dd \<and> shape dd = [B, K] \<and> hinge dd (Num \<gamma>) = Inr h \<and> reduce_sum h 1 = Inr s
    \<longrightarrow> shape s = [B] \<and> (\<forall>b < B. entry s [b] = (\<Sum>k\<leftarrow>[0..<K]. max 0 (1 - entry dd [b, k] / \<gamma>))))
   \<and> (wf_tensor dd \<and> shape dd = [B, K] \<and> shape th = [B, K] \<and> hinge dd (Num \<gamma>) = Inr h
        \<and> masked_sum th h = Inr s
    \<longrightarrow> shape s = [B]
        \<and> (\<forall>b < B. entry s [b] = (\<Sum>k\<leftarrow>[0..<K]. entry th [b, k] * max 0 (1 - entry dd [b, k] / \<gamma>))))"
proof -
  have c1: "(mmr_cnn z_list x y_true n_rb n_db gamma_rb gamma_db bs (QStr ''univ'') weights g
      = Inr (Terms4 rb_l1 rb_linf db_l1 db_linf, g')
    \<longrightarrow> (\<exists>V n_in g1 g2 d1 d2 h1 h2.
          subscript gamma_db 0 = Inr g1 \<and> subscript gamma_db 1 = Inr g2
          \<and> db_distance_of Linf V (last z_list) y_true (shape y_true ! 1) n_in g1 = Inr d1
          \<and> hinge d1 g1 = Inr h1 \<and> reduce_sum h1 1 = Inr db_l1
          \<and> db_distance_of L1 V (last z_list) y_true (shape y_true ! 1) n_in g2 = Inr d2
          \<and> hinge d2 g2 = Inr h2 \<and> reduce_sum h2 1 = Inr db_linf))"
  proof (intro impI)
    assume "mmr_cnn z_list x y_true n_rb n_db gamma_rb gamma_db bs (QStr ''univ'') weights g
        = Inr (Terms4 rb_l1 rb_linf db_l1 db_linf, g')"
    then obtain L where "mmr_univ L (last z_list) y_true (shape x ! 1) (shape x ! 2) (shape x ! 3)
        (shape y_true ! 1) n_rb n_db gamma_rb gamma_db bs g = Inr (Terms4 rb_l1 rb_linf db_l1 db_linf, g')"
      using mmr_cnn_Inr [of z_list x y_true n_rb n_db gamma_rb gamma_db bs "QStr ''univ''" weights g]
      by auto
    then obtain V n_in g1 g2 d1 d2 h1 h2 where
      "subscript gamma_db 0 = Inr g1" "subscript gamma_db 1 = Inr g2"
      "db_distance_of Linf V (last z_list) y_true (shape y_true ! 1) n_in g1 = Inr d1"
      "hinge d1 g1 = Inr h1" "reduce_sum h1 1 = Inr db_l1"
      "db_distance_of L1 V (last z_list) y_true (shape y_true ! 1) n_in g2 = Inr d2"
      "hinge d2 g2 = Inr h2" "reduce_sum h2 1 = Inr db_linf"
      by (auto simp: mmr_univ_def ebind_Inr_iff)
    then show "\<exists>V n_in g1 g2 d1 d2 h1 h2.
            subscript gamma_db 0 = Inr g1 \<and> subscript gamma_db 1 = Inr g2
            \<and> db_distance_of Linf V (last z_list) y_true (shape y_true ! 1) n_in g1 = Inr d1
            \<and> hinge d1 g1 = Inr h1 \<and> reduce_sum h1 1 = Inr db_l1
            \<and> db_distance_of L1 V (last z_list) y_true (shape y_true ! 1) n_in g2 = Inr d2
            \<and> hinge d2 g2 = Inr h2 \<and> reduce_sum h2 1 = Inr db_linf"
      by blast
  qed
  have c2: "(norm_of q = Some ord
        \<and> mmr_cnn z_list x y_true n_rb n_db gamma_rb gamma_db bs q weights g = Inr (Terms2 rb db, g')
    \<longrightarrow> (\<exists>V n_in dd th ga gb h.
          db_distance_of ord V (last z_list) y_true (shape y_true ! 1) n_in gamma_db = Inr dd
          \<and> zero_out_non_min_distances dd n_db ga = Inr (th, gb)
          \<and> hinge dd gamma_db = Inr h \<and> masked_sum th h = Inr db))"
  proof (intro impI)
    assume "norm_of q = Some ord
          \<and> mmr_cnn z_list x y_true n_rb n_db gamma_rb gamma_db bs q weights g = Inr (Terms2 rb db, g')"
    then obtain L where "mmr_single ord L (last z_list) y_true (shape x ! 1) (shape x ! 2) (shape x ! 3)
        (shape y_true ! 1) n_rb n_db gamma_rb gamma_db bs g = Inr (Terms2 rb db, g')"
      using mmr_cnn_Inr [of z_list x y_true n_rb n_db gamma_rb gamma_db bs q weights g]
      by auto
    then obtain V n_in dd th ga gb h where
      "db_distance_of ord V (last z_list) y_true (shape y_true ! 1) n_in gamma_db = Inr dd"
      "zero_out_non_min_distances dd n_db ga = Inr (th, gb)"
      "hinge dd gamma_db = Inr h" "masked_sum th h = Inr db"
      by (auto simp: mmr_single_def ebind_Inr_iff)
    then show "\<exists>V n_in dd th ga gb h.
            db_distance_of ord V (last z_list) y_true (shape y_true ! 1) n_in gamma_db = Inr dd
            \<and> zero_out_non_min_distances dd n_db ga = Inr (th, gb)
            \<and> hinge dd gamma_db = Inr h \<and> masked_sum th h = Inr db"
      by blast
  qed
  have c3: "(wf_tensor dd \<and> shape dd = [B, K] \<and> hinge dd (Num \<gamma>) = Inr h \<and> reduce_sum h 1 = Inr s
    \<longrightarrow> shape s = [B] \<and> (\<forall>b < B. entry s [b] = (\<Sum>k\<leftarrow>[0..<K]. max 0 (1 - entry dd [b, k] / \<gamma>))))"
  proof (intro impI)
    assume a: "wf_tensor dd \<and> shape dd = [B, K] \<and> hinge dd (Num \<gamma>) = Inr h \<and> reduce_sum h 1 = Inr s"
    then have h: "shape h = [B, K]" "\<forall>b < B. \<forall>k < K. entry h [b, k] = max 0 (1 - entry dd [b, k] / \<gamma>)"
      using hinge2 [of dd B K \<gamma> h] by blast+
    have s: "shape s = [B]" "\<forall>b < B. entry s [b] = (\<Sum>k\<leftarrow>[0..<K]. entry h [b, k])"
      using reduce_sum2 [OF h(1), of s] a by blast+
    have "(\<Sum>k\<leftarrow>[0..<K]. entry h [b, k]) = (\<Sum>k\<leftarrow>[0..<K]. max 0 (1 - entry dd [b, k] / \<gamma>))"
      if "b < B" for b
      using h(2) that by (intro arg_cong [where f = sum_list] map_cong) simp_all
    then show "shape s = [B] \<and> (\<forall>b < B. entry s [b] = (\<Sum>k\<leftarrow>[0..<K]. max 0 (1 - entry dd [b, k] / \<gamma>)))"
      using s by simp
  qed
  have c4: "(wf_tensor dd \<and> shape dd = [B, K] \<and> shape th = [B, K] \<and> hinge dd (Num \<gamma>) = Inr h
        \<and> masked_sum th h = Inr s
    \<longrightarrow> shape s = [B]
        \<and> (\<forall>b < B. entry s [b] = (\<Sum>k\<leftarrow>[0..<K]. entry th [b, k] * max 0 (1 - entry dd [b, k] / \<gamma>))))"
  proof (intro impI)
    assume a: "wf_tensor dd \<and> shape dd = [B, K] \<and> shape th = [B, K] \<and> hinge dd (Num \<gamma>) = Inr h
          \<and> masked_sum th h = Inr s"
    then have h: "shape h = [B, K]" "\<forall>b < B. \<forall>k < K. entry h [b, k] = max 0 (1 - entry dd [b, k] / \<gamma>)"
      using hinge2 [of dd B K \<gamma> h] by blast+
    have s: "shape s = [B]" "\<forall>b < B. entry s [b] = (\<Sum>k\<leftarrow>[0..<K]. entry th [b, k] * entry h [b, k])"
      using masked_sum2 [of th B K h s] a h(1) by blast+
    have "(\<Sum>k\<leftarrow>[0..<K]. entry th [b, k] * entry h [b, k])
        = (\<Sum>k\<leftarrow>[0..<K]. entry th [b, k] * max 0 (1 - entry dd [b, k] / \<gamma>))"
      if "b < B" for b
      using h(2) that by (intro arg_cong [where f = sum_list] map_cong) simp_all
    then show "shape s = [B]
          \<and> (\<forall>b < B. entry s [b] = (\<Sum>k\<leftarrow>[0..<K]. entry th [b, k] * max 0 (1 - entry dd [b, k] / \<gamma>)))"
      using s by simp
  qed
  show ?thesis using c1 c2 c3 c4 by (intro conjI)
qed

text \<open>
  C2, as the code has it. Every term that \<open>mmr_cnn\<close> returns is non-negative, in both
  branches: each is a sum of products of a 0/1 mask (or of no mask) with a hinge
  \<open>max(0, 1 - distance / gamma)\<close>. The bounds \<open>n_rb\<close> and \<open>n_db\<close> are not kept.
\<close>

theorem mmr_cnn_terms_nonneg:
  "(mmr_cnn z_list x y_true n_rb n_db gamma_rb gamma_db bs q weights g = Inr (Terms2 rb db, g')
      \<longrightarrow> nonneg rb \<and> nonneg db)
   \<and> (mmr_cnn z_list x y_true n_rb n_db gamma_rb gamma_db bs q weights g
        = Inr (Terms4 rb_l1 rb_linf db_l1 db_linf, g')
      \<longrightarrow> nonneg rb_l1 \<and> nonneg rb_linf \<and> nonneg db_l1 \<and> nonneg db_linf)"
proof (intro conjI impI)
  assume run: "mmr_cnn z_list x y_true n_rb n_db gamma_rb gamma_db bs q weights g = Inr (Terms2 rb db, g')"
  obtain L where L: "case norm_of q of
      Some ord \<Rightarrow> mmr_single ord L (last z_list) y_true (shape x ! 1) (shape x ! 2) (shape x ! 3)
                    (shape y_true ! 1) n_rb n_db gamma_rb gamma_db bs g = Inr (Terms2 rb db, g')
    | None \<Rightarrow> if q = QStr ''univ''
        then mmr_univ L (last z_list) y_true (shape x ! 1) (shape x ! 2) (shape x ! 3)
                    (shape y_true ! 1) n_rb n_db gamma_rb gamma_db bs g = Inr (Terms2 rb db, g')
        else (Terms2 rb db, g') = (PyNone, g)"
    using mmr_cnn_Inr [OF run] by blast
  show "nonneg rb" "nonneg db"
    using L mmr_single_nonneg mmr_univ_nonneg
    by (fastforce split: option.splits if_splits)+
next
  assume run: "mmr_cnn z_list x y_true n_rb n_db gamma_rb gamma_db bs q weights g
        = Inr (Terms4 rb_l1 rb_linf db_l1 db_linf, g')"
  obtain L where L: "case norm_of q of
      Some ord \<Rightarrow> mmr_single ord L (last z_list) y_true (shape x ! 1) (shape x ! 2) (shape x ! 3)
                    (shape y_true ! 1) n_rb n_db gamma_rb gamma_db bs g
                  = Inr (Terms4 rb_l1 rb_linf db_l1 db_linf, g')
    | None \<Rightarrow> if q = QStr ''univ''
        then mmr_univ L (last z_list) y_true (shape x ! 1) (shape x ! 2) (shape x ! 3)
                    (shape y_true ! 1) n_rb n_db gamma_rb gamma_db bs g
                  = Inr (Terms4 rb_l1 rb_linf db_l1 db_linf, g')
        else (Terms4 rb_l1 rb_linf db_l1 db_linf, g') = (PyNone, g)"
    using mmr_cnn_Inr [OF run] by blast
  show "nonneg rb_l1" "nonneg rb_linf" "nonneg db_l1" "nonneg db_linf"
    using L mmr_single_nonneg mmr_univ_nonneg
    by (fastforce split: option.splits if_splits)+
qed

end
